theory Spec2Isabelle
  imports Complex_Main "HOL-Library.Word" "HOL-Library.Log_Nat"
begin

unbundle bit_operations_syntax

section \<open>GcPauseTimeInfo: bookkeeping of one garbage-collection pause\<close>

subsection \<open>Doubles\<close>

text \<open>
  The three fields of \<^verbatim>\<open>GcPauseTimeInfo\<close> and the results of its member functions
  are C++ \<^verbatim>\<open>double\<close> values: IEEE 754 binary64. A double is a finite value, an
  infinity or a NaN. A finite value has a sign, a significand \<open>m\<close> and an exponent
  \<open>e\<close> and stands for \<open>m * 2 ^ e\<close> with that sign; the format allows \<open>m < 2 ^ 53\<close> and
  \<open>-1074 \<le> e \<le> 971\<close>, with \<open>2 ^ 52 \<le> m\<close> unless \<open>e = -1074\<close> (zero and the subnormal
  values), which \<open>is_double\<close> states. Zero has a sign. The payload of a NaN is not
  told apart: there is one NaN.
\<close>

datatype double = Finite bool int int | Infinity bool | NaN

definition is_double :: "double \<Rightarrow> bool" where
  "is_double x =
     (case x of
        Finite s m e \<Rightarrow>
          0 \<le> m \<and> m < 2 ^ 53 \<and> - 1074 \<le> e \<and> e \<le> 971 \<and> (2 ^ 52 \<le> m \<or> e = - 1074)
      | Infinity s \<Rightarrow> True
      | NaN \<Rightarrow> True)"

text \<open>
  The real number that a finite double stands for; an infinity and a NaN stand for
  none. A real is \<open>representable\<close> when some double stands for it.
\<close>

definition valof :: "double \<Rightarrow> real option" where
  "valof x =
     (case x of
        Finite s m e \<Rightarrow> Some ((if s then - 1 else 1) * real_of_int m * 2 powi e)
      | Infinity s \<Rightarrow> None
      | NaN \<Rightarrow> None)"

definition representable :: "real \<Rightarrow> bool" where
  "representable r = (\<exists>z. is_double z \<and> valof z = Some r)"

text \<open>
  Rounding to nearest, ties to even, the rounding of the default floating-point
  environment. \<open>round_double s M E\<close> is the double nearest to \<open>M * 2 ^ E\<close> with sign \<open>s\<close>, for
  \<open>M > 0\<close>: with \<open>n\<close> the number of bits of \<open>M\<close>, the exponent of the result is
  \<open>t = max (E + n - 53) (-1074)\<close>; when \<open>t \<le> E\<close> the value fits and \<open>M\<close> is shifted
  left, otherwise the low \<open>t - E\<close> bits of \<open>M\<close> are cut off and the rest is rounded up
  when the part cut off is more than half a unit, or exactly half and the rest is odd.
  Rounding up may carry into the next exponent, and an exponent above 971 is an
  overflow to infinity.
\<close>

definition round_double :: "bool \<Rightarrow> int \<Rightarrow> int \<Rightarrow> double" where
  "round_double s M E =
     (let n = bitlen M;
          t = max (E + n - 53) (- 1074);
          (m, e) =
            (if t \<le> E then (M * 2 ^ nat (E - t), t)
             else (let k = nat (t - E);
                       q = M div 2 ^ k;
                       r = M mod 2 ^ k;
                       half = 2 ^ (k - 1);
                       q' = (if half < r \<or> (r = half \<and> odd q) then q + 1 else q)
                   in if q' = 2 ^ 53 then (2 ^ 52, t + 1) else (q', t)))
      in if 971 < e then Infinity s else Finite s m e)"

text \<open>
  Addition: a NaN operand gives NaN, as does the sum of two infinities of opposite
  sign; an infinity otherwise wins; two finite values are added exactly, as integers
  over their smaller exponent, and the sum is rounded. An exact sum of zero is
  \<open>+0\<close> unless both operands are negative (then both are \<open>-0\<close>). Subtraction adds
  the negated operand, which in IEEE 754 is the same operation.
\<close>

definition dadd :: "double \<Rightarrow> double \<Rightarrow> double" where
  "dadd x y =
     (case (x, y) of
        (NaN, _) \<Rightarrow> NaN
      | (_, NaN) \<Rightarrow> NaN
      | (Infinity a, Infinity b) \<Rightarrow> (if a = b then Infinity a else NaN)
      | (Infinity a, Finite _ _ _) \<Rightarrow> Infinity a
      | (Finite _ _ _, Infinity b) \<Rightarrow> Infinity b
      | (Finite s1 m1 e1, Finite s2 m2 e2) \<Rightarrow>
          (let E = min e1 e2;
               v1 = (if s1 then - 1 else 1) * m1 * 2 ^ nat (e1 - E);
               v2 = (if s2 then - 1 else 1) * m2 * 2 ^ nat (e2 - E);
               v = v1 + v2
           in if v = 0 then Finite (s1 \<and> s2) 0 (- 1074)
              else round_double (v < 0) \<bar>v\<bar> E))"

definition dneg :: "double \<Rightarrow> double" where
  "dneg x = (case x of Finite s m e \<Rightarrow> Finite (\<not> s) m e | Infinity s \<Rightarrow> Infinity (\<not> s) | NaN \<Rightarrow> NaN)"

definition dsub :: "double \<Rightarrow> double \<Rightarrow> double" where
  "dsub x y = dadd x (dneg y)"

text \<open>
  The comparisons \<^verbatim>\<open>x >= 0\<close> and \<^verbatim>\<open>x < 0\<close> and the equality \<^verbatim>\<open>x == y\<close> of C++:
  every comparison with a NaN is false, and the two zeros are equal. The double of an
  integer is used to write concrete values below.
\<close>

definition double_of_int :: "int \<Rightarrow> double" where
  "double_of_int i = (if i = 0 then Finite False 0 (- 1074) else round_double (i < 0) \<bar>i\<bar> 0)"

definition ge_zero :: "double \<Rightarrow> bool" where
  "ge_zero x =
     (case x of
        Finite s m e \<Rightarrow> (if s then m = 0 else True)
      | Infinity s \<Rightarrow> \<not> s
      | NaN \<Rightarrow> False)"

definition lt_zero :: "double \<Rightarrow> bool" where
  "lt_zero x = (case x of Finite s m e \<Rightarrow> s \<and> m \<noteq> 0 | Infinity s \<Rightarrow> s | NaN \<Rightarrow> False)"

definition deq :: "double \<Rightarrow> double \<Rightarrow> bool" where
  "deq x y =
     (case x of
        NaN \<Rightarrow> False
      | Infinity a \<Rightarrow> y = Infinity a
      | Finite s m e \<Rightarrow>
          (case y of
             Finite s' m' e' \<Rightarrow> (m = 0 \<and> m' = 0) \<or> (s = s' \<and> m = m' \<and> e = e')
           | Infinity b \<Rightarrow> False
           | NaN \<Rightarrow> False))"

subsection \<open>The class\<close>

text \<open>
  The C++ class \<^verbatim>\<open>GcPauseTimeInfo\<close> holds three \<^verbatim>\<open>double\<close> fields,
  \<^verbatim>\<open>_start_time\<close>, \<^verbatim>\<open>_duration\<close> and \<^verbatim>\<open>_end_of_last_pause\<close>. An Isabelle
  record field cannot begin with an underscore, so the fields carry the prefix \<open>f\<close>;
  the accessor functions keep the names of the C++ member functions.
\<close>

record GcPauseTimeInfo =
  f_start_time :: double
  f_duration :: double
  f_end_of_last_pause :: double

datatype vm_error = AssertionFailure string

text \<open>
  Modelled from the spec: the HotSpot macro \<^verbatim>\<open>assert(cond, msg)\<close> is declared in
  \<^verbatim>\<open>utilities/debug.hpp\<close>, which is not among the sources. The specification
  describes a failed precondition as fatal to the caller, never producing an object,
  so a false condition ends the computation with the assertion's message.
\<close>

definition vm_assert :: "bool \<Rightarrow> string \<Rightarrow> (vm_error + 'a) \<Rightarrow> vm_error + 'a" where
  "vm_assert cond msg rest = (if cond then rest else Inl (AssertionFailure msg))"

text \<open>
  The constructor: the member initialisers store the three arguments, then the body runs
  the three assertions in the order of the source.
\<close>

definition GcPauseTimeInfo_new :: "double \<Rightarrow> double \<Rightarrow> double \<Rightarrow> vm_error + GcPauseTimeInfo" where
  "GcPauseTimeInfo_new pause_start_time pause_duration end_of_last_pause_arg =
     (let this = \<lparr> f_start_time = pause_start_time,
                   f_duration = pause_duration,
                   f_end_of_last_pause = end_of_last_pause_arg \<rparr>
      in vm_assert (ge_zero pause_start_time) ''pause_start_time must not be negative''
        (vm_assert (ge_zero pause_duration) ''pause_duration must not be negative''
          (vm_assert (ge_zero end_of_last_pause_arg) ''end_of_last_pause must not be negative''
            (Inr this))))"

definition end_of_last_pause :: "GcPauseTimeInfo \<Rightarrow> double" where
  "end_of_last_pause this = f_end_of_last_pause this"

text \<open>
  Each setter is \<^verbatim>\<open>return _field = v;\<close>: it stores the value and returns the value
  stored. The model returns that value together with the updated object.
\<close>

definition set_end_of_last_pause :: "double \<Rightarrow> GcPauseTimeInfo \<Rightarrow> double \<times> GcPauseTimeInfo" where
  "set_end_of_last_pause v this = (v, this\<lparr> f_end_of_last_pause := v \<rparr>)"

definition start_time :: "GcPauseTimeInfo \<Rightarrow> double" where
  "start_time this = f_start_time this"

definition set_start_time :: "double \<Rightarrow> GcPauseTimeInfo \<Rightarrow> double \<times> GcPauseTimeInfo" where
  "set_start_time v this = (v, this\<lparr> f_start_time := v \<rparr>)"

definition duration :: "GcPauseTimeInfo \<Rightarrow> double" where
  "duration this = f_duration this"

definition set_duration :: "double \<Rightarrow> GcPauseTimeInfo \<Rightarrow> double \<times> GcPauseTimeInfo" where
  "set_duration v this = (v, this\<lparr> f_duration := v \<rparr>)"

definition preceding_nongc_duration :: "GcPauseTimeInfo \<Rightarrow> double" where
  "preceding_nongc_duration this = dsub (f_start_time this) (f_end_of_last_pause this)"

definition total_duration :: "GcPauseTimeInfo \<Rightarrow> double" where
  "total_duration this = dadd (preceding_nongc_duration this) (f_duration this)"

definition pause_end_time :: "GcPauseTimeInfo \<Rightarrow> double" where
  "pause_end_time this = dadd (f_start_time this) (f_duration this)"


section \<open>Inflater: the decompression session\<close>

subsection \<open>Java values\<close>

text \<open>
  A Java \<^verbatim>\<open>int\<close> is a 32-bit word and a \<^verbatim>\<open>long\<close> a 64-bit word: \<open>+\<close> and \<open>-\<close>
  wrap around, comparisons read the word as two's complement (\<open><s\<close>, \<open>\<le>s\<close>), the
  cast \<^verbatim>\<open>(int)\<close> of a long keeps the low 32 bits (\<open>ucast\<close>) and an \<^verbatim>\<open>int\<close> used
  where a \<^verbatim>\<open>long\<close> is expected is sign-extended (\<open>scast\<close>). A reference that may be
  \<^verbatim>\<open>null\<close> is an option. A byte array is the list of its bytes.
\<close>

type_synonym jint = "32 word"
type_synonym jlong = "64 word"
type_synonym jbyte = "8 word"
type_synonym byte_array = "jbyte list"
type_synonym ref = nat

datatype error =
    NullPointerException
  | ArrayIndexOutOfBoundsException
  | IllegalStateException
  | IllegalArgumentException
  | ReadOnlyBufferException
  | DataFormatException
  | AssertionError

text \<open>\<^verbatim>\<open>Math.max(a, b)\<close> on two ints.\<close>

definition Math_max :: "jint \<Rightarrow> jint \<Rightarrow> jint" where
  "Math_max a b = (if b \<le>s a then a else b)"

text \<open>
  Modelled from the spec: \<^verbatim>\<open>Preconditions.checkFromIndexSize(off, len, length, ...)\<close>
  is declared in \<^verbatim>\<open>jdk.internal.util.Preconditions\<close>, which is not among the sources.
  The specification gives the constraint as offset at least 0 and offset + length at
  most the length of the array, else an out-of-bounds error; a length argument below 0
  is out of bounds as well. The sum is taken in the integers, so it cannot wrap. The
  result is whether the check passes.
\<close>

definition checkFromIndexSize :: "jint \<Rightarrow> jint \<Rightarrow> nat \<Rightarrow> bool" where
  "checkFromIndexSize fromIndex size' len =
     (0 \<le> sint fromIndex \<and> 0 \<le> sint size' \<and> sint fromIndex + sint size' \<le> int len)"

subsection \<open>Byte buffers\<close>

text \<open>
  Modelled from the spec: \<^verbatim>\<open>java.nio.ByteBuffer\<close> is not among the sources. The
  specification calls it the external buffer view, with a position that decompression
  advances up to the buffer's limit. The record holds what \<^verbatim>\<open>Inflater\<close> reads of a
  buffer: position, limit and capacity, whether it is direct and whether it is
  read-only, the memory address of a direct buffer (\<^verbatim>\<open>NIO_ACCESS.getBufferAddress\<close>),
  and the backing array and array offset of a heap buffer
  (\<^verbatim>\<open>ZipUtils.getBufferArray\<close>, \<^verbatim>\<open>ZipUtils.getBufferOffset\<close>).
\<close>

record ByteBuffer =
  position :: jint
  limit :: jint
  capacity :: jint
  isDirect :: bool
  isReadOnly :: bool
  address :: jlong
  hb :: byte_array
  offset :: jint

text \<open>
  \<^verbatim>\<open>remaining()\<close> is \<^verbatim>\<open>limit - position\<close> when that is positive, else 0;
  \<^verbatim>\<open>hasRemaining()\<close> is \<^verbatim>\<open>position < limit\<close>; \<^verbatim>\<open>position(n)\<close> throws
  \<^verbatim>\<open>IllegalArgumentException\<close> when \<open>n\<close> is negative or beyond the limit, and sets
  the position otherwise (\<open>None\<close> is the exception).
\<close>

definition remaining :: "ByteBuffer \<Rightarrow> jint" where
  "remaining b = (let rem = limit b - position b in if 0 <s rem then rem else 0)"

definition hasRemaining :: "ByteBuffer \<Rightarrow> bool" where
  "hasRemaining b = (position b <s limit b)"

definition set_position :: "jint \<Rightarrow> ByteBuffer \<Rightarrow> ByteBuffer option" where
  "set_position newPosition b =
     (if limit b <s newPosition \<or> newPosition <s 0 then None
      else Some (b\<lparr> position := newPosition \<rparr>))"

text \<open>The invariant that the buffer class keeps: \<open>0 \<le> position \<le> limit \<le> capacity\<close>.\<close>

definition buffer_ok :: "ByteBuffer \<Rightarrow> bool" where
  "buffer_ok b = (0 \<le>s position b \<and> position b \<le>s limit b \<and> limit b \<le>s capacity b)"

text \<open>
  Modelled from the spec: \<^verbatim>\<open>ZipUtils.defaultBuf\<close> is declared in \<^verbatim>\<open>ZipUtils\<close>,
  which is not among the sources. The specification calls the state it stands for
  "no input": it is a buffer of capacity 0, private to the package. Such a buffer has
  one state only, so it is a constant and not an entry of the heap of buffers that
  callers can reach.
\<close>

definition defaultBuf :: ByteBuffer where
  "defaultBuf = \<lparr> position = 0, limit = 0, capacity = 0, isDirect = False,
                  isReadOnly = False, address = 0, hb = [], offset = 0 \<rparr>"

datatype buffer_ref = DefaultBuf | UserBuf ref

subsection \<open>The native codec\<close>

text \<open>
  The native methods are declared in \<^verbatim>\<open>Inflater\<close> and implemented outside the
  sources. A call of one of the four \<^verbatim>\<open>inflate...\<close> methods either returns a
  \<^verbatim>\<open>long\<close> or throws \<^verbatim>\<open>DataFormatException\<close>, as their declarations say; before
  throwing, the native code stores the counts of bytes consumed and produced in the
  fields \<^verbatim>\<open>inputConsumed\<close> and \<^verbatim>\<open>outputConsumed\<close>, the "out" parameters of the
  source's comment. The codec is a parameter of every operation that calls it: it
  stands for what the native library does at that call, so two calls may be given
  different codecs, and nothing is assumed of the stream state behind the handle.
  The native methods returning \<^verbatim>\<open>void\<close> (\<^verbatim>\<open>setDictionary\<close>,
  \<^verbatim>\<open>setDictionaryBuffer\<close>, \<^verbatim>\<open>reset\<close>, \<^verbatim>\<open>end\<close>) change nothing that the Java
  code reads and have no counterpart here. The bytes that the codec writes to the
  output are likewise the codec's own effect: this model follows positions,
  flags and counters, not contents.
\<close>

datatype native_result = Returned jlong | ThrewDataFormat jint jint

record codec =
  init :: "bool \<Rightarrow> jlong"
  inflateBytesBytes ::
    "jlong \<Rightarrow> byte_array option \<Rightarrow> jint \<Rightarrow> jint \<Rightarrow> byte_array \<Rightarrow> jint \<Rightarrow> jint \<Rightarrow> native_result"
  inflateBytesBuffer ::
    "jlong \<Rightarrow> byte_array option \<Rightarrow> jint \<Rightarrow> jint \<Rightarrow> jlong \<Rightarrow> jint \<Rightarrow> native_result"
  inflateBufferBytes ::
    "jlong \<Rightarrow> jlong \<Rightarrow> jint \<Rightarrow> byte_array \<Rightarrow> jint \<Rightarrow> jint \<Rightarrow> native_result"
  inflateBufferBuffer ::
    "jlong \<Rightarrow> jlong \<Rightarrow> jint \<Rightarrow> jlong \<Rightarrow> jint \<Rightarrow> native_result"
  getAdler_native :: "jlong \<Rightarrow> jint"

subsection \<open>The state\<close>

text \<open>
  The fields of \<^verbatim>\<open>Inflater\<close>, with the address held by its \<^verbatim>\<open>InflaterZStreamRef\<close>,
  and the buffers of the Java heap that callers hand to the session. A buffer is an
  object shared with the caller: the session keeps a reference to its input buffer, and
  the output buffer of a call may be that same object, so buffers live in a store
  indexed by reference.
\<close>

record Inflater =
  heap :: "ref \<Rightarrow> ByteBuffer"
  zsRef_address :: jlong
  input :: "buffer_ref option"
  inputArray :: "byte_array option"
  inputPos :: jint
  inputLim :: jint
  finished :: bool
  pendingOutput :: bool
  needDict :: bool
  bytesRead :: jlong
  bytesWritten :: jlong
  inputConsumed :: jint
  outputConsumed :: jint

definition buffer_at :: "Inflater \<Rightarrow> buffer_ref \<Rightarrow> ByteBuffer" where
  "buffer_at s r = (case r of DefaultBuf \<Rightarrow> defaultBuf | UserBuf n \<Rightarrow> heap s n)"

definition put_buffer :: "buffer_ref \<Rightarrow> ByteBuffer \<Rightarrow> Inflater \<Rightarrow> Inflater" where
  "put_buffer r b s = (case r of DefaultBuf \<Rightarrow> s | UserBuf n \<Rightarrow> s\<lparr> heap := (heap s)(n := b) \<rparr>)"

subsection \<open>Construction, teardown and the open check\<close>

text \<open>
  An operation returns its outcome, \<open>Inl\<close> an exception or \<open>Inr\<close> the returned
  value, together with the state at the moment it returned or threw: an exception
  does not undo the assignments made before it. Every method body runs under the
  lock of \<^verbatim>\<open>zsRef\<close>, so an operation is one step.
\<close>

type_synonym 'a outcome = "(error + 'a) \<times> Inflater"

text \<open>
  The constructor of \<^verbatim>\<open>InflaterZStreamRef\<close> asserts that the address returned by
  the native \<^verbatim>\<open>init\<close> is not 0; the field initialisers give the rest. The buffers
  of the heap are those of the caller.
\<close>

definition Inflater_new :: "codec \<Rightarrow> bool \<Rightarrow> (ref \<Rightarrow> ByteBuffer) \<Rightarrow> error + Inflater" where
  "Inflater_new cdc nowrap h =
     (let addr = init cdc nowrap
      in if addr = 0 then Inl AssertionError
         else Inr \<lparr> heap = h, zsRef_address = addr, input = Some DefaultBuf,
                    inputArray = None, inputPos = 0, inputLim = 0, finished = False,
                    pendingOutput = False, needDict = False, bytesRead = 0,
                    bytesWritten = 0, inputConsumed = 0, outputConsumed = 0 \<rparr>)"

text \<open>
  \<^verbatim>\<open>InflaterZStreamRef.run\<close> sets the address to 0 and, if it was not 0, hands the
  old address to the native \<^verbatim>\<open>end\<close>.
  Modelled from the spec: \<^verbatim>\<open>Cleanable.clean\<close> belongs to the cleaner, which is not
  among the sources; the specification says that teardown releases the native handle
  exactly once and leaves it zero, so \<open>clean\<close> runs the registered action \<open>run\<close>.
\<close>

definition run :: "Inflater \<Rightarrow> Inflater" where
  "run s = s\<lparr> zsRef_address := 0 \<rparr>"

definition clean :: "Inflater \<Rightarrow> Inflater" where
  "clean s = run s"

definition ensureOpen :: "Inflater \<Rightarrow> error + unit" where
  "ensureOpen s = (if zsRef_address s = 0 then Inl IllegalStateException else Inr ())"

definition end_inflater :: "Inflater \<Rightarrow> unit outcome" where
  "end_inflater s =
     (if zsRef_address s = 0 then (Inr (), s)
      else (let s1 = clean s;
                s2 = s1\<lparr> input := Some DefaultBuf \<rparr>;
                s3 = s2\<lparr> inputArray := None \<rparr>
            in (Inr (), s3)))"

definition close :: "Inflater \<Rightarrow> unit outcome" where
  "close s = end_inflater s"

definition reset :: "Inflater \<Rightarrow> unit outcome" where
  "reset s =
     (case ensureOpen s of
        Inl e \<Rightarrow> (Inl e, s)
      | Inr _ \<Rightarrow>
          (let s1 = s\<lparr> input := Some DefaultBuf \<rparr>;
               s2 = s1\<lparr> inputArray := None \<rparr>;
               s3 = s2\<lparr> finished := False \<rparr>;
               s4 = s3\<lparr> needDict := False \<rparr>;
               s5 = s4\<lparr> bytesWritten := 0 \<rparr>;
               s6 = s5\<lparr> bytesRead := bytesWritten s5 \<rparr>
           in (Inr (), s6)))"

subsection \<open>Input and dictionary\<close>

text \<open>
  The three overloads of \<^verbatim>\<open>setInput\<close>: \<open>setInput\<close> takes an array with offset and
  length, \<open>setInput_array\<close> a whole array, \<open>setInput_buffer\<close> a buffer. None of them
  calls \<open>ensureOpen\<close>. Reading \<^verbatim>\<open>input.length\<close> of a null array throws
  \<^verbatim>\<open>NullPointerException\<close>, as \<^verbatim>\<open>Objects.requireNonNull\<close> does for a null buffer.
\<close>

definition setInput :: "byte_array option \<Rightarrow> jint \<Rightarrow> jint \<Rightarrow> Inflater \<Rightarrow> unit outcome" where
  "setInput inp off len s =
     (case inp of
        None \<Rightarrow> (Inl NullPointerException, s)
      | Some a \<Rightarrow>
          if \<not> checkFromIndexSize off len (length a)
          then (Inl ArrayIndexOutOfBoundsException, s)
          else (let s1 = s\<lparr> input := None \<rparr>;
                    s2 = s1\<lparr> inputArray := Some a \<rparr>;
                    s3 = s2\<lparr> inputPos := off \<rparr>;
                    s4 = s3\<lparr> inputLim := off + len \<rparr>
                in (Inr (), s4)))"

definition setInput_array :: "byte_array option \<Rightarrow> Inflater \<Rightarrow> unit outcome" where
  "setInput_array inp s =
     (case inp of
        None \<Rightarrow> (Inl NullPointerException, s)
      | Some a \<Rightarrow> setInput inp 0 (word_of_nat (length a)) s)"

definition setInput_buffer :: "ref option \<Rightarrow> Inflater \<Rightarrow> unit outcome" where
  "setInput_buffer inp s =
     (case inp of
        None \<Rightarrow> (Inl NullPointerException, s)
      | Some r \<Rightarrow>
          (let s1 = s\<lparr> input := Some (UserBuf r) \<rparr>;
               s2 = s1\<lparr> inputArray := None \<rparr>
           in (Inr (), s2)))"

text \<open>
  The three overloads of \<^verbatim>\<open>setDictionary\<close>. The argument check of the array overload
  comes before \<open>ensureOpen\<close>; the buffer overload reads the position and limit of its
  argument first, and after the native call moves the position to the end of what it
  handed over.
\<close>

definition setDictionary :: "byte_array option \<Rightarrow> jint \<Rightarrow> jint \<Rightarrow> Inflater \<Rightarrow> unit outcome" where
  "setDictionary dictionary off len s =
     (case dictionary of
        None \<Rightarrow> (Inl NullPointerException, s)
      | Some d \<Rightarrow>
          if \<not> checkFromIndexSize off len (length d)
          then (Inl ArrayIndexOutOfBoundsException, s)
          else (case ensureOpen s of
                  Inl e \<Rightarrow> (Inl e, s)
                | Inr _ \<Rightarrow> (Inr (), s\<lparr> needDict := False \<rparr>)))"

definition setDictionary_array :: "byte_array option \<Rightarrow> Inflater \<Rightarrow> unit outcome" where
  "setDictionary_array dictionary s =
     (case dictionary of
        None \<Rightarrow> (Inl NullPointerException, s)
      | Some d \<Rightarrow> setDictionary dictionary 0 (word_of_nat (length d)) s)"

definition setDictionary_buffer :: "ref option \<Rightarrow> Inflater \<Rightarrow> unit outcome" where
  "setDictionary_buffer dictionary s =
     (case dictionary of
        None \<Rightarrow> (Inl NullPointerException, s)
      | Some r \<Rightarrow>
          (let pos = position (heap s r);
               rem = Math_max (limit (heap s r) - pos) 0
           in case ensureOpen s of
                Inl e \<Rightarrow> (Inl e, s)
              | Inr _ \<Rightarrow>
                  (case set_position (pos + rem) (heap s r) of
                     None \<Rightarrow> (Inl IllegalArgumentException, s)
                   | Some b \<Rightarrow>
                       (let s1 = s\<lparr> heap := (heap s)(r := b) \<rparr>
                        in (Inr (), s1\<lparr> needDict := False \<rparr>)))))"

subsection \<open>Queries\<close>

text \<open>
  The field \<^verbatim>\<open>finished\<close> and the method \<^verbatim>\<open>finished()\<close> share a name in the source;
  the method is \<open>finished'\<close> here.
\<close>

definition getRemaining :: "Inflater \<Rightarrow> jint" where
  "getRemaining s =
     (case input s of
        None \<Rightarrow> inputLim s - inputPos s
      | Some r \<Rightarrow> remaining (buffer_at s r))"

definition needsInput :: "Inflater \<Rightarrow> bool" where
  "needsInput s =
     (case input s of
        None \<Rightarrow> inputLim s = inputPos s
      | Some r \<Rightarrow> \<not> hasRemaining (buffer_at s r))"

definition needsDictionary :: "Inflater \<Rightarrow> bool" where
  "needsDictionary s = needDict s"

definition finished' :: "Inflater \<Rightarrow> bool" where
  "finished' s = finished s"

definition hasPendingOutput :: "Inflater \<Rightarrow> bool" where
  "hasPendingOutput s = pendingOutput s"

definition getAdler :: "codec \<Rightarrow> Inflater \<Rightarrow> error + jint" where
  "getAdler cdc s =
     (case ensureOpen s of
        Inl e \<Rightarrow> Inl e
      | Inr _ \<Rightarrow> Inr (getAdler_native cdc (zsRef_address s)))"

definition getBytesRead :: "Inflater \<Rightarrow> error + jlong" where
  "getBytesRead s = (case ensureOpen s of Inl e \<Rightarrow> Inl e | Inr _ \<Rightarrow> Inr (bytesRead s))"

definition getBytesWritten :: "Inflater \<Rightarrow> error + jlong" where
  "getBytesWritten s = (case ensureOpen s of Inl e \<Rightarrow> Inl e | Inr _ \<Rightarrow> Inr (bytesWritten s))"

definition getTotalIn :: "Inflater \<Rightarrow> error + jint" where
  "getTotalIn s = (case getBytesRead s of Inl e \<Rightarrow> Inl e | Inr n \<Rightarrow> Inr (ucast n))"

definition getTotalOut :: "Inflater \<Rightarrow> error + jint" where
  "getTotalOut s = (case getBytesWritten s of Inl e \<Rightarrow> Inl e | Inr n \<Rightarrow> Inr (ucast n))"

subsection \<open>Decompression into a byte array\<close>

text \<open>
  \<^verbatim>\<open>inflate(byte[] output, int off, int len)\<close>. The method is modelled in four parts
  that follow its text: the choice of the native method and its arguments
  (\<open>inflate_native\<close>), the handler of the outer \<^verbatim>\<open>catch (DataFormatException e)\<close>
  (\<open>inflate_catch\<close>), the statements after the \<^verbatim>\<open>try\<close> (\<open>inflate_tail\<close>), and the
  method itself. \<^verbatim>\<open>NIO_ACCESS.acquireSession\<close> and \<^verbatim>\<open>releaseSession\<close> bracket the
  use of a direct buffer's memory and change nothing of the state.
\<close>

definition inflate_native :: "codec \<Rightarrow> byte_array \<Rightarrow> jint \<Rightarrow> jint \<Rightarrow> Inflater \<Rightarrow> native_result" where
  "inflate_native cdc out off len s =
     (case input s of
        None \<Rightarrow>
          (let inputPos' = inputPos s
           in inflateBytesBytes cdc (zsRef_address s)
                (inputArray s) inputPos' (inputLim s - inputPos')
                out off len)
      | Some r \<Rightarrow>
          (let inputPos' = position (buffer_at s r);
               inputRem = Math_max (limit (buffer_at s r) - inputPos') 0
           in if isDirect (buffer_at s r)
              then (let inputAddress = address (buffer_at s r)
                    in inflateBufferBytes cdc (zsRef_address s)
                         (inputAddress + scast inputPos') inputRem
                         out off len)
              else (let inputArray' = hb (buffer_at s r);
                        inputOffset = offset (buffer_at s r)
                    in inflateBytesBytes cdc (zsRef_address s)
                         (Some inputArray') (inputOffset + inputPos') inputRem
                         out off len)))"

definition inflate_catch :: "Inflater \<Rightarrow> Inflater" where
  "inflate_catch s =
     (let s1 = s\<lparr> bytesRead := bytesRead s + scast (inputConsumed s) \<rparr>;
          s2 = s1\<lparr> inputConsumed := 0 \<rparr>;
          written = outputConsumed s2;
          s3 = s2\<lparr> bytesWritten := bytesWritten s2 + scast written \<rparr>
      in s3\<lparr> outputConsumed := 0 \<rparr>)"

definition inflate_tail :: "buffer_ref option \<Rightarrow> jint \<Rightarrow> jint \<Rightarrow> jlong \<Rightarrow> Inflater \<Rightarrow> jint outcome" where
  "inflate_tail inp inputPos' len result s =
     (let read = (ucast (result AND 0x7fffffff) :: jint);
          written = (ucast (drop_bit 31 result AND 0x7fffffff) :: jint);
          s1 = (if drop_bit 62 result AND 1 \<noteq> 0 then s\<lparr> finished := True \<rparr> else s);
          s2 = (if written = len \<and> \<not> finished s1
                then s1\<lparr> pendingOutput := True \<rparr>
                else s1\<lparr> pendingOutput := False \<rparr>);
          s3 = (if drop_bit 63 result AND 1 \<noteq> 0 then s2\<lparr> needDict := True \<rparr> else s2);
          moved =
            (case inp of
               Some r \<Rightarrow>
                 if 0 <s read
                 then (case set_position (inputPos' + read) (buffer_at s3 r) of
                         None \<Rightarrow> Inl IllegalArgumentException
                       | Some b \<Rightarrow> Inr (put_buffer r b s3))
                 else Inr s3
             | None \<Rightarrow> Inr (s3\<lparr> inputPos := inputPos' + read \<rparr>))
      in case moved of
           Inl e \<Rightarrow> (Inl e, s3)
         | Inr s4 \<Rightarrow>
             (let s5 = s4\<lparr> bytesWritten := bytesWritten s4 + scast written \<rparr>;
                  s6 = s5\<lparr> bytesRead := bytesRead s5 + scast read \<rparr>
              in (Inr written, s6)))"

definition inflate :: "codec \<Rightarrow> byte_array option \<Rightarrow> jint \<Rightarrow> jint \<Rightarrow> Inflater \<Rightarrow> jint outcome" where
  "inflate cdc output off len s =
     (case output of
        None \<Rightarrow> (Inl NullPointerException, s)
      | Some out \<Rightarrow>
          if \<not> checkFromIndexSize off len (length out)
          then (Inl ArrayIndexOutOfBoundsException, s)
          else (case ensureOpen s of
                  Inl e \<Rightarrow> (Inl e, s)
                | Inr _ \<Rightarrow>
                    (case input s of
                       None \<Rightarrow>
                         (let inputPos' = inputPos s
                          in case inflate_native cdc out off len s of
                               ThrewDataFormat ic oc \<Rightarrow>
                                 (let s1 = s\<lparr> inputConsumed := ic, outputConsumed := oc \<rparr>;
                                      s2 = s1\<lparr> inputPos := inputPos' + inputConsumed s1 \<rparr>
                                  in (Inl DataFormatException, inflate_catch s2))
                             | Returned result \<Rightarrow> inflate_tail None inputPos' len result s)
                     | Some r \<Rightarrow>
                         (let inputPos' = position (buffer_at s r)
                          in case inflate_native cdc out off len s of
                               ThrewDataFormat ic oc \<Rightarrow>
                                 (let s1 = s\<lparr> inputConsumed := ic, outputConsumed := oc \<rparr>
                                  in case set_position (inputPos' + inputConsumed s1)
                                            (buffer_at s1 r) of
                                       None \<Rightarrow> (Inl IllegalArgumentException, s1)
                                     | Some b \<Rightarrow>
                                         (Inl DataFormatException,
                                          inflate_catch (put_buffer r b s1)))
                             | Returned result \<Rightarrow>
                                 inflate_tail (Some r) inputPos' len result s))))"

definition inflate_array :: "codec \<Rightarrow> byte_array option \<Rightarrow> Inflater \<Rightarrow> jint outcome" where
  "inflate_array cdc output s =
     (case output of
        None \<Rightarrow> (Inl NullPointerException, s)
      | Some out \<Rightarrow> inflate cdc output 0 (word_of_nat (length out)) s)"

subsection \<open>Decompression into a byte buffer\<close>

text \<open>
  \<^verbatim>\<open>inflate(ByteBuffer output)\<close>, in the same four parts. The output buffer is given
  by reference; its position and remaining length are read once, before the native
  call. The handler of the outer \<^verbatim>\<open>catch\<close> and the statements after the \<^verbatim>\<open>try\<close>
  move the position of the output buffer. Neither assigns \<^verbatim>\<open>pendingOutput\<close>.
\<close>

definition inflate_buffer_native :: "codec \<Rightarrow> ref \<Rightarrow> Inflater \<Rightarrow> native_result" where
  "inflate_buffer_native cdc ro s =
     (let output = heap s ro;
          outputPos = position output;
          outputRem = Math_max (limit output - outputPos) 0
      in case input s of
           None \<Rightarrow>
             (let inputPos' = inputPos s
              in if isDirect output
                 then (let outputAddress = address output
                       in inflateBytesBuffer cdc (zsRef_address s)
                            (inputArray s) inputPos' (inputLim s - inputPos')
                            (outputAddress + scast outputPos) outputRem)
                 else (let outputArray = hb output;
                           outputOffset = offset output
                       in inflateBytesBytes cdc (zsRef_address s)
                            (inputArray s) inputPos' (inputLim s - inputPos')
                            outputArray (outputOffset + outputPos) outputRem))
         | Some r \<Rightarrow>
             (let inputPos' = position (buffer_at s r);
                  inputRem = Math_max (limit (buffer_at s r) - inputPos') 0
              in if isDirect (buffer_at s r)
                 then (let inputAddress = address (buffer_at s r)
                       in if isDirect output
                          then (let outputAddress = address output
                                in inflateBufferBuffer cdc (zsRef_address s)
                                     (inputAddress + scast inputPos') inputRem
                                     (outputAddress + scast outputPos) outputRem)
                          else (let outputArray = hb output;
                                    outputOffset = offset output
                                in inflateBufferBytes cdc (zsRef_address s)
                                     (inputAddress + scast inputPos') inputRem
                                     outputArray (outputOffset + outputPos) outputRem))
                 else (let inputArray' = hb (buffer_at s r);
                           inputOffset = offset (buffer_at s r)
                       in if isDirect output
                          then (let outputAddress = address output
                                in inflateBytesBuffer cdc (zsRef_address s)
                                     (Some inputArray') (inputOffset + inputPos') inputRem
                                     (outputAddress + scast outputPos) outputRem)
                          else (let outputArray = hb output;
                                    outputOffset = offset output
                                in inflateBytesBytes cdc (zsRef_address s)
                                     (Some inputArray') (inputOffset + inputPos') inputRem
                                     outputArray (outputOffset + outputPos) outputRem))))"

definition inflate_buffer_catch :: "ref \<Rightarrow> jint \<Rightarrow> Inflater \<Rightarrow> jint outcome" where
  "inflate_buffer_catch ro outputPos s =
     (let s1 = s\<lparr> bytesRead := bytesRead s + scast (inputConsumed s) \<rparr>;
          s2 = s1\<lparr> inputConsumed := 0 \<rparr>;
          written = outputConsumed s2
      in case set_position (outputPos + written) (heap s2 ro) of
           None \<Rightarrow> (Inl IllegalArgumentException, s2)
         | Some b \<Rightarrow>
             (let s3 = s2\<lparr> heap := (heap s2)(ro := b) \<rparr>;
                  s4 = s3\<lparr> bytesWritten := bytesWritten s3 + scast written \<rparr>;
                  s5 = s4\<lparr> outputConsumed := 0 \<rparr>
              in (Inl DataFormatException, s5)))"

definition inflate_buffer_tail ::
  "buffer_ref option \<Rightarrow> jint \<Rightarrow> ref \<Rightarrow> jint \<Rightarrow> jlong \<Rightarrow> Inflater \<Rightarrow> jint outcome" where
  "inflate_buffer_tail inp inputPos' ro outputPos result s =
     (let read = (ucast (result AND 0x7fffffff) :: jint);
          written = (ucast (drop_bit 31 result AND 0x7fffffff) :: jint);
          s1 = (if drop_bit 62 result AND 1 \<noteq> 0 then s\<lparr> finished := True \<rparr> else s);
          s2 = (if drop_bit 63 result AND 1 \<noteq> 0 then s1\<lparr> needDict := True \<rparr> else s1);
          moved =
            (case inp of
               Some r \<Rightarrow>
                 (case set_position (inputPos' + read) (buffer_at s2 r) of
                    None \<Rightarrow> Inl IllegalArgumentException
                  | Some b \<Rightarrow> Inr (put_buffer r b s2))
             | None \<Rightarrow> Inr (s2\<lparr> inputPos := inputPos' + read \<rparr>))
      in case moved of
           Inl e \<Rightarrow> (Inl e, s2)
         | Inr s3 \<Rightarrow>
             (case set_position (outputPos + written) (heap s3 ro) of
                None \<Rightarrow> (Inl IllegalArgumentException, s3)
              | Some b \<Rightarrow>
                  (let s4 = s3\<lparr> heap := (heap s3)(ro := b) \<rparr>;
                       s5 = s4\<lparr> bytesWritten := bytesWritten s4 + scast written \<rparr>;
                       s6 = s5\<lparr> bytesRead := bytesRead s5 + scast read \<rparr>
                   in (Inr written, s6))))"

definition inflate_buffer :: "codec \<Rightarrow> ref option \<Rightarrow> Inflater \<Rightarrow> jint outcome" where
  "inflate_buffer cdc output s =
     (case output of
        None \<Rightarrow> (Inl NullPointerException, s)
      | Some ro \<Rightarrow>
          if isReadOnly (heap s ro) then (Inl ReadOnlyBufferException, s)
          else (case ensureOpen s of
                  Inl e \<Rightarrow> (Inl e, s)
                | Inr _ \<Rightarrow>
                    (let outputPos = position (heap s ro)
                     in case input s of
                          None \<Rightarrow>
                            (let inputPos' = inputPos s
                             in case inflate_buffer_native cdc ro s of
                                  ThrewDataFormat ic oc \<Rightarrow>
                                    (let s1 = s\<lparr> inputConsumed := ic, outputConsumed := oc \<rparr>;
                                         s2 = s1\<lparr> inputPos := inputPos' + inputConsumed s1 \<rparr>
                                     in inflate_buffer_catch ro outputPos s2)
                                | Returned result \<Rightarrow>
                                    inflate_buffer_tail None inputPos' ro outputPos result s)
                        | Some r \<Rightarrow>
                            (let inputPos' = position (buffer_at s r)
                             in case inflate_buffer_native cdc ro s of
                                  ThrewDataFormat ic oc \<Rightarrow>
                                    (let s1 = s\<lparr> inputConsumed := ic, outputConsumed := oc \<rparr>
                                     in case set_position (inputPos' + inputConsumed s1)
                                               (buffer_at s1 r) of
                                          None \<Rightarrow> (Inl IllegalArgumentException, s1)
                                        | Some b \<Rightarrow>
                                            inflate_buffer_catch ro outputPos
                                              (put_buffer r b s1))
                                | Returned result \<Rightarrow>
                                    inflate_buffer_tail (Some r) inputPos' ro outputPos
                                      result s))))"

subsection \<open>Reachable states\<close>

text \<open>
  The states of a session: the state after construction, over a heap whose buffers
  satisfy the invariant of their class, and every state that a public method leaves
  behind, whether it returned or threw, for any arguments and any behaviour of the
  codec. Between two calls the caller may change any of its buffers through the
  buffer's own methods, which keep the invariant.
\<close>

inductive reachable :: "Inflater \<Rightarrow> bool" where
  r_new: "Inflater_new cdc nowrap h = Inr s \<Longrightarrow> \<forall>r. buffer_ok (h r) \<Longrightarrow> reachable s"
| r_caller: "reachable s \<Longrightarrow> buffer_ok b \<Longrightarrow> reachable (s\<lparr> heap := (heap s)(r := b) \<rparr>)"
| r_setInput: "reachable s \<Longrightarrow> reachable (snd (setInput a off len s))"
| r_setInput_array: "reachable s \<Longrightarrow> reachable (snd (setInput_array a s))"
| r_setInput_buffer: "reachable s \<Longrightarrow> reachable (snd (setInput_buffer rb s))"
| r_setDictionary: "reachable s \<Longrightarrow> reachable (snd (setDictionary a off len s))"
| r_setDictionary_array: "reachable s \<Longrightarrow> reachable (snd (setDictionary_array a s))"
| r_setDictionary_buffer: "reachable s \<Longrightarrow> reachable (snd (setDictionary_buffer rb s))"
| r_inflate: "reachable s \<Longrightarrow> reachable (snd (inflate cdc a off len s))"
| r_inflate_array: "reachable s \<Longrightarrow> reachable (snd (inflate_array cdc a s))"
| r_inflate_buffer: "reachable s \<Longrightarrow> reachable (snd (inflate_buffer cdc rb s))"
| r_reset: "reachable s \<Longrightarrow> reachable (snd (reset s))"
| r_end: "reachable s \<Longrightarrow> reachable (snd (end_inflater s))"
| r_close: "reachable s \<Longrightarrow> reachable (snd (close s))"

text \<open>
  What the claims speak of: that exactly one of the two input representations is
  set, the position of the active input source, and that a count reported by the
  codec lies within the range the codec was given.
\<close>

definition one_input_active :: "Inflater \<Rightarrow> bool" where
  "one_input_active s = ((input s = None) \<noteq> (inputArray s = None))"

definition active_input_position :: "Inflater \<Rightarrow> jint" where
  "active_input_position s =
     (case input s of None \<Rightarrow> inputPos s | Some r \<Rightarrow> position (buffer_at s r))"

definition count_in_range :: "jint \<Rightarrow> jint \<Rightarrow> bool" where
  "count_in_range n avail = (0 \<le>s n \<and> n \<le>s avail)"

text \<open>
  The invariant of the reachable states: every buffer of the heap satisfies the
  invariant of its class, and exactly one input representation is set.
\<close>

definition session_inv :: "Inflater \<Rightarrow> bool" where
  "session_inv s = ((\<forall>r. buffer_ok (heap s r)) \<and> one_input_active s)"

subsection \<open>A concrete session\<close>

text \<open>
  Concrete values on which the theorems below are evaluated: a codec whose native
  \<^verbatim>\<open>init\<close> returns the address 1 and whose four inflate methods all give the same
  result, a heap of writable heap buffers of capacity 8 with position 0 and limit 4,
  and the session that the constructor builds over them.
\<close>

definition example_codec :: "native_result \<Rightarrow> codec" where
  "example_codec r =
     \<lparr> init = (\<lambda>nowrap. 1),
       inflateBytesBytes = (\<lambda>addr ia ioff ilen oa ooff olen. r),
       inflateBytesBuffer = (\<lambda>addr ia ioff ilen oaddr olen. r),
       inflateBufferBytes = (\<lambda>addr iaddr ilen oa ooff olen. r),
       inflateBufferBuffer = (\<lambda>addr iaddr ilen oaddr olen. r),
       getAdler_native = (\<lambda>addr. 1) \<rparr>"

definition example_buffer :: ByteBuffer where
  "example_buffer =
     \<lparr> position = 0, limit = 4, capacity = 8, isDirect = False, isReadOnly = False,
       address = 0, hb = [0, 0, 0, 0, 0, 0, 0, 0], offset = 0 \<rparr>"

definition example_heap :: "ref \<Rightarrow> ByteBuffer" where
  "example_heap = (\<lambda>r. example_buffer)"

definition example_session :: Inflater where
  "example_session =
     \<lparr> heap = example_heap, zsRef_address = 1, input = Some DefaultBuf,
       inputArray = None, inputPos = 0, inputLim = 0, finished = False,
       pendingOutput = False, needDict = False, bytesRead = 0,
       bytesWritten = 0, inputConsumed = 0, outputConsumed = 0 \<rparr>"

text \<open>The example session after \<open>setInput\<close> of a five-byte array.\<close>

definition fed_session :: Inflater where
  "fed_session = snd (setInput (Some [1, 2, 3, 4, 5]) 0 5 example_session)"

text \<open>The example session after \<open>setInput\<close> of the buffer with reference 0.\<close>

definition buffer_session :: Inflater where
  "buffer_session = snd (setInput_buffer (Some 0) example_session)"


section \<open>Properties of GcPauseTimeInfo\<close>

subsection \<open>Rounding is exact on representable results\<close>

lemma round_double_exact:
  assumes M: "0 < M"
    and z: "0 \<le> mz" "mz < 2 ^ 53" "- 1074 \<le> ez" "ez \<le> 971"
    and eq: "real_of_int M * 2 powi E = real_of_int mz * 2 powi ez"
  shows "valof (round_double s M E) = Some ((if s then - 1 else 1) * real_of_int M * 2 powi E)"
proof -
  define n where "n = bitlen M"
  define t where "t = max (E + n - 53) (- 1074)"
  have n1: "1 \<le> n" using M by (simp add: n_def bitlen_alt_def)
  have lo: "2 ^ nat (n - 1) \<le> M" and hi: "M < 2 ^ nat n"
    using bitlen_bounds [OF M] by (simp_all add: n_def)
  have "2 powi (n - 1 + E) \<le> real_of_int M * 2 powi E"
  proof -
    have "(2::real) powi (n - 1 + E) = 2 powi (n - 1) * 2 powi E" by (simp add: power_int_add)
    also have "2 powi (n - 1) = (2::real) ^ nat (n - 1)" using n1 by (simp add: power_int_nonneg_exp)
    also have "\<dots> \<le> real_of_int M" using lo by (metis of_int_le_iff of_int_numeral of_int_power)
    finally show ?thesis by (simp add: mult_right_mono)
  qed
  also have "\<dots> = real_of_int mz * 2 powi ez" by (rule eq)
  also have "\<dots> < 2 ^ 53 * 2 powi ez"
    using z(2) by (simp add: mult_strict_right_mono)
  also have "\<dots> = 2 powi (53 + ez)" by (simp add: power_int_add)
  finally have lt: "(2::real) powi (n - 1 + E) < 2 powi (53 + ez)" .
  have "n - 1 + E < 53 + ez"
  proof (rule ccontr)
    assume "\<not> n - 1 + E < 53 + ez"
    then have "53 + ez \<le> n - 1 + E" by simp
    then have "(2::real) powi (53 + ez) \<le> 2 powi (n - 1 + E)"
      by (intro power_int_increasing) simp_all
    with lt show False by simp
  qed
  then have tz: "t \<le> ez" using z(3) by (simp add: t_def)
  have t971: "\<not> 971 < t" using tz z(4) by simp
  show ?thesis
  proof (cases "t \<le> E")
    case True
    have r: "round_double s M E = Finite s (M * 2 ^ nat (E - t)) t"
      unfolding round_double_def Let_def n_def [symmetric] t_def [symmetric]
      using True t971 by simp
    have "real_of_int (M * 2 ^ nat (E - t)) * 2 powi t = real_of_int M * 2 powi E"
    proof -
      have "(2::real) ^ nat (E - t) = 2 powi (E - t)"
        using True by (simp add: power_int_nonneg_exp)
      then have "real_of_int (M * 2 ^ nat (E - t)) * 2 powi t
                 = real_of_int M * (2 powi (E - t) * 2 powi t)" by simp
      also have "2 powi (E - t) * (2::real) powi t = 2 powi E"
        by (simp add: power_int_add [symmetric])
      finally show ?thesis .
    qed
    then show ?thesis by (simp add: r valof_def mult.assoc)
  next
    case False
    define k where "k = nat (t - E)"
    define j where "j = nat (ez - t)"
    have k0: "0 < k" using False by (simp add: k_def)
    have ezE: "ez - E = int (j + k)" using False tz by (simp add: j_def k_def)
    have "real_of_int M = real_of_int mz * 2 powi (ez - E)"
    proof -
      have "real_of_int mz * 2 powi (ez - E) = real_of_int mz * 2 powi ez * 2 powi (- E)"
        by (simp add: power_int_add power_int_diff power_int_minus field_simps)
      also have "\<dots> = real_of_int M * 2 powi E * 2 powi (- E)" by (simp add: eq)
      also have "\<dots> = real_of_int M" by (simp add: power_int_minus)
      finally show ?thesis by simp
    qed
    also have "\<dots> = real_of_int (mz * 2 ^ (j + k))"
      unfolding ezE power_int_of_nat by simp
    finally have "real_of_int M = real_of_int (mz * 2 ^ (j + k))" .
    then have "M = mz * 2 ^ (j + k)" by (simp only: of_int_eq_iff)
    then have Meq: "M = mz * 2 ^ j * 2 ^ k"
      by (simp add: power_add mult.assoc)
    have md: "M mod 2 ^ k = 0" and dv: "M div 2 ^ k = mz * 2 ^ j"
      by (simp_all add: Meq)
    have half: "(0::int) < 2 ^ (k - 1)" by simp
    have "E + n - 53 \<le> t" by (simp add: t_def)
    then have nk: "n \<le> 53 + int k" using False by (simp add: k_def)
    have "M < 2 ^ nat n" by (rule hi)
    also have "\<dots> \<le> (2::int) ^ (53 + k)"
      using nk by (intro power_increasing) simp_all
    finally have "mz * 2 ^ j * 2 ^ k < 2 ^ 53 * 2 ^ k" by (simp add: Meq power_add)
    then have q53: "mz * 2 ^ j < 2 ^ 53" by simp
    have r: "round_double s M E = Finite s (mz * 2 ^ j) t"
      unfolding round_double_def Let_def n_def [symmetric] t_def [symmetric]
        k_def [symmetric] md dv
      using False t971 q53 half by simp
    have "real_of_int (mz * 2 ^ j) * 2 powi t = real_of_int M * 2 powi E"
    proof -
      have "(2::real) ^ k = 2 powi (t - E)"
        using False by (simp add: k_def power_int_nonneg_exp)
      then have "real_of_int M * 2 powi E
                 = real_of_int (mz * 2 ^ j) * (2 powi (t - E) * 2 powi E)"
        by (simp add: Meq)
      also have "2 powi (t - E) * (2::real) powi E = 2 powi t"
        by (simp add: power_int_add [symmetric])
      finally show ?thesis by simp
    qed
    then show ?thesis by (simp add: r valof_def mult.assoc)
  qed
qed


lemma valof_Some_cases:
  assumes "valof x = Some a"
  obtains s m e where "x = Finite s m e" "a = (if s then - 1 else 1) * real_of_int m * 2 powi e"
  using assms by (cases x) (auto simp: valof_def)

lemma if_inf_fin_not_NaN: "(if c then Infinity s else Finite s m e) \<noteq> NaN"
  by simp

lemma round_double_not_NaN: "round_double s M E \<noteq> NaN"
  unfolding round_double_def Let_def case_prod_beta by (rule if_inf_fin_not_NaN)

lemma dadd_finite_not_NaN: "dadd (Finite s1 m1 e1) (Finite s2 m2 e2) \<noteq> NaN"
  unfolding dadd_def Let_def by (simp add: round_double_not_NaN)

lemma dadd_not_NaN: "x \<noteq> NaN \<Longrightarrow> dadd x (Finite s m e) \<noteq> NaN"
  by (cases x) (simp_all add: dadd_finite_not_NaN, simp add: dadd_def)

lemma deq_refl: "x \<noteq> NaN \<Longrightarrow> deq x x"
  by (cases x) (simp_all add: deq_def)

lemma scaled_value:
  assumes "E \<le> e"
  shows "real_of_int ((if s then - 1 else 1) * m * 2 ^ nat (e - E)) * 2 powi E
         = (if s then - 1 else 1) * real_of_int m * 2 powi e"
proof -
  have "(2::real) ^ nat (e - E) = 2 powi (e - E)"
    using assms by (simp add: power_int_nonneg_exp)
  moreover have "2 powi (e - E) * (2::real) powi E = 2 powi e"
    by (simp add: power_int_add [symmetric])
  ultimately show ?thesis by (simp add: mult.assoc)
qed

lemma dadd_exact:
  assumes x: "valof x = Some a" and y: "valof y = Some b"
    and rep: "representable (a + b)"
  shows "valof (dadd x y) = Some (a + b)"
proof -
  obtain s1 m1 e1 where x': "x = Finite s1 m1 e1"
    and a: "a = (if s1 then - 1 else 1) * real_of_int m1 * 2 powi e1"
    using x by (rule valof_Some_cases)
  obtain s2 m2 e2 where y': "y = Finite s2 m2 e2"
    and b: "b = (if s2 then - 1 else 1) * real_of_int m2 * 2 powi e2"
    using y by (rule valof_Some_cases)
  define E where "E = min e1 e2"
  define v1 where "v1 = (if s1 then - 1 else 1) * m1 * 2 ^ nat (e1 - E)"
  define v2 where "v2 = (if s2 then - 1 else 1) * m2 * 2 ^ nat (e2 - E)"
  define v where "v = v1 + v2"
  have va: "real_of_int v1 * 2 powi E = a"
    unfolding v1_def a by (rule scaled_value) (simp add: E_def)
  have vb: "real_of_int v2 * 2 powi E = b"
    unfolding v2_def b by (rule scaled_value) (simp add: E_def)
  have vab: "real_of_int v * 2 powi E = a + b"
    by (simp add: v_def va vb distrib_right)
  have run: "dadd x y = (if v = 0 then Finite (s1 \<and> s2) 0 (- 1074)
                         else round_double (v < 0) \<bar>v\<bar> E)"
    by (simp add: x' y' dadd_def Let_def E_def v1_def v2_def v_def)
  show ?thesis
  proof (cases "v = 0")
    case True
    then show ?thesis using vab by (simp add: run valof_def)
  next
    case False
    obtain z where z: "is_double z" "valof z = Some (a + b)"
      using rep by (auto simp: representable_def)
    obtain sz mz ez where z': "z = Finite sz mz ez"
      and zv: "a + b = (if sz then - 1 else 1) * real_of_int mz * 2 powi ez"
      using z(2) by (rule valof_Some_cases)
    have zb: "0 \<le> mz" "mz < 2 ^ 53" "- 1074 \<le> ez" "ez \<le> 971"
      using z(1) by (simp_all add: z' is_double_def)
    have "\<bar>real_of_int v * 2 powi E\<bar> = \<bar>(if sz then - 1 else 1) * real_of_int mz * 2 powi ez\<bar>"
      using vab zv by simp
    then have eq: "real_of_int \<bar>v\<bar> * 2 powi E = real_of_int mz * 2 powi ez"
      using zb(1) by (simp add: abs_mult)
    have "valof (round_double (v < 0) \<bar>v\<bar> E)
          = Some ((if v < 0 then - 1 else 1) * real_of_int \<bar>v\<bar> * 2 powi E)"
      by (rule round_double_exact [OF _ zb eq]) (use False in simp)
    also have "(if v < 0 then - 1 else 1) * real_of_int \<bar>v\<bar> = real_of_int v"
      by simp
    finally show ?thesis using False by (simp add: run vab)
  qed
qed

lemma valof_dneg: "valof x = Some a \<Longrightarrow> valof (dneg x) = Some (- a)"
  by (cases x) (auto simp: valof_def dneg_def)

lemma dsub_exact:
  assumes "valof x = Some a" and "valof y = Some b" and "representable (a - b)"
  shows "valof (dsub x y) = Some (a - b)"
  using dadd_exact [OF assms(1) valof_dneg [OF assms(2)]] assms(3) by (simp add: dsub_def)


subsection \<open>Concrete doubles\<close>

lemma double_of_int_values:
  "double_of_int 0 = Finite False 0 (- 1074)"
  "double_of_int 1 = Finite False 4503599627370496 (- 52)"
  "double_of_int 2 = Finite False 4503599627370496 (- 51)"
  "double_of_int 3 = Finite False 6755399441055744 (- 51)"
  "double_of_int 4 = Finite False 4503599627370496 (- 50)"
  "double_of_int 5 = Finite False 5629499534213120 (- 50)"
  "double_of_int 7 = Finite False 7881299347898368 (- 50)"
  "double_of_int 8 = Finite False 4503599627370496 (- 49)"
  "double_of_int 9 = Finite False 5066549580791808 (- 49)"
  "double_of_int (- 1) = Finite True 4503599627370496 (- 52)"
  "double_of_int (- 3) = Finite True 6755399441055744 (- 51)"
  "double_of_int 10000000000000000 = Finite False 5000000000000000 1"
  by code_simp+

lemma valof_values:
  "valof (double_of_int 0) = Some 0"
  "valof (double_of_int 1) = Some 1"
  "valof (double_of_int 2) = Some 2"
  "valof (double_of_int 3) = Some 3"
  "valof (double_of_int 4) = Some 4"
  "valof (double_of_int 5) = Some 5"
  "valof (double_of_int 7) = Some 7"
  "valof (double_of_int 9) = Some 9"
  "valof (double_of_int 10000000000000000) = Some 10000000000000000"
  by (simp_all add: double_of_int_values valof_def power_int_minus)

text \<open>
  The arithmetic at values where it rounds, overflows or has no value. The doubles
  written \<^verbatim>\<open>0.1\<close> and \<^verbatim>\<open>0.2\<close> are \<open>7205759403792794 * 2 ^ -56\<close> and
  \<open>7205759403792794 * 2 ^ -55\<close>, and their double sum is
  \<open>5404319552844596 * 2 ^ -54\<close>, which prints as \<^verbatim>\<open>0.30000000000000004\<close>. The largest
  double is \<open>(2 ^ 53 - 1) * 2 ^ 971\<close>, and twice that overflows. The double written
  \<^verbatim>\<open>1e-17\<close> is \<open>6490371073168535 * 2 ^ -109\<close>, and \<open>1\<close> minus it rounds back to
  \<open>1\<close>. Infinity minus infinity is NaN, and \<open>1 + -1\<close> is \<open>+0\<close>.
\<close>

lemma double_arithmetic_examples:
  "dadd (Finite False 7205759403792794 (- 56)) (Finite False 7205759403792794 (- 55))
   = Finite False 5404319552844596 (- 54)"
  "dadd (Finite False 9007199254740991 971) (Finite False 9007199254740991 971)
   = Infinity False"
  "dsub (Finite False 4503599627370496 (- 52)) (Finite False 6490371073168535 (- 109))
   = Finite False 4503599627370496 (- 52)"
  "dsub (Infinity False) (Infinity False) = NaN"
  "dadd (Finite False 4503599627370496 (- 52)) (Finite True 4503599627370496 (- 52))
   = Finite False 0 (- 1074)"
  by code_simp+

subsection \<open>The pause interval\<close>

lemma GcPauseTimeInfo_new_ok:
  "ge_zero s \<Longrightarrow> ge_zero d \<Longrightarrow> ge_zero e \<Longrightarrow>
   GcPauseTimeInfo_new s d e = Inr \<lparr> f_start_time = s, f_duration = d, f_end_of_last_pause = e \<rparr>"
  by (simp add: GcPauseTimeInfo_new_def vm_assert_def)

lemma valof_not_NaN: "valof x = Some a \<Longrightarrow> x \<noteq> NaN"
  by (auto simp: valof_def)

lemma dsub_not_NaN:
  assumes "valof x = Some a" and "valof y = Some b"
  shows "dsub x y \<noteq> NaN"
proof -
  obtain s m e where "x = Finite s m e" using assms(1) by (rule valof_Some_cases)
  moreover obtain s' m' e' where "y = Finite s' m' e'" using assms(2) by (rule valof_Some_cases)
  ultimately show ?thesis by (simp add: dsub_def dneg_def dadd_finite_not_NaN)
qed

lemma dadd_not_NaN':
  assumes "x \<noteq> NaN" and "valof y = Some b"
  shows "dadd x y \<noteq> NaN"
proof -
  obtain s m e where "y = Finite s m e" using assms(2) by (rule valof_Some_cases)
  then show ?thesis using assms(1) by (simp add: dadd_not_NaN)
qed

text \<open>
  Claim C7, as stated, at a concrete input. The claim gives \<open>pause_end_time\<close> as the
  real number \<open>s + d\<close>. For \<open>s = 10 ^ 16\<close>, \<open>d = 1\<close> and \<open>e = 0\<close>, all three doubles and
  none negative, the constructor returns an object whose \<open>pause_end_time\<close> is
  \<open>10 ^ 16\<close> and not \<open>10 ^ 16 + 1\<close>: the sum lies halfway between two doubles and is
  rounded to the even one.
\<close>

theorem pause_interval_rounding_counterexample:
  "GcPauseTimeInfo_new (double_of_int 10000000000000000) (double_of_int 1) (double_of_int 0)
     = Inr \<lparr> f_start_time = double_of_int 10000000000000000, f_duration = double_of_int 1,
             f_end_of_last_pause = double_of_int 0 \<rparr>
   \<and> valof (double_of_int 10000000000000000) = Some 10000000000000000
   \<and> valof (double_of_int 1) = Some 1
   \<and> valof (pause_end_time \<lparr> f_start_time = double_of_int 10000000000000000,
                               f_duration = double_of_int 1,
                               f_end_of_last_pause = double_of_int 0 \<rparr>) = Some 10000000000000000
   \<and> valof (pause_end_time \<lparr> f_start_time = double_of_int 10000000000000000,
                               f_duration = double_of_int 1,
                               f_end_of_last_pause = double_of_int 0 \<rparr>) \<noteq> Some 10000000000000001"
proof -
  have a: "dadd (Finite False 5000000000000000 1) (Finite False 4503599627370496 (- 52))
           = Finite False 5000000000000000 1"
    by code_simp
  have g: "ge_zero (double_of_int 10000000000000000)" "ge_zero (double_of_int 1)"
    "ge_zero (double_of_int 0)"
    by (simp_all add: double_of_int_values ge_zero_def)
  show ?thesis
    by (simp add: GcPauseTimeInfo_new_ok [OF g] valof_values pause_end_time_def)
      (simp add: double_of_int_values a valof_def)
qed

text \<open>
  Claim C7, amended. For all finite doubles \<open>s\<close>, \<open>d\<close>, \<open>e\<close> that are not negative, the
  constructor returns an object on which \<open>pause_end_time\<close> equals the double sum
  \<open>s + d\<close>, \<open>preceding_nongc_duration\<close> the double difference \<open>s - e\<close> and
  \<open>total_duration\<close> the double sum of that difference and \<open>d\<close>, each operation
  being the exact result rounded to the nearest double; equality is that of C++.
  Whenever the real result of each operation involved is representable as a double,
  the member function returns exactly the real number that the claim names.
\<close>

theorem pause_interval_derived_values:
  assumes "valof s = Some vs" and "valof d = Some vd" and "valof e = Some ve"
    and "ge_zero s" and "ge_zero d" and "ge_zero e"
  shows "\<exists>p. GcPauseTimeInfo_new s d e = Inr p
           \<and> deq (pause_end_time p) (dadd s d)
           \<and> deq (preceding_nongc_duration p) (dsub s e)
           \<and> deq (total_duration p) (dadd (dsub s e) d)
           \<and> (representable (vs + vd) \<longrightarrow> valof (pause_end_time p) = Some (vs + vd))
           \<and> (representable (vs - ve) \<longrightarrow>
                valof (preceding_nongc_duration p) = Some (vs - ve))
           \<and> (representable (vs - ve) \<and> representable (vs - ve + vd) \<longrightarrow>
                valof (total_duration p) = Some (vs - ve + vd))"
proof -
  let ?p = "\<lparr> f_start_time = s, f_duration = d, f_end_of_last_pause = e \<rparr>"
  have new: "GcPauseTimeInfo_new s d e = Inr ?p"
    using assms(4-6) by (rule GcPauseTimeInfo_new_ok)
  have n1: "dadd s d \<noteq> NaN"
    by (rule dadd_not_NaN' [OF valof_not_NaN [OF assms(1)] assms(2)])
  have n2: "dsub s e \<noteq> NaN" by (rule dsub_not_NaN [OF assms(1) assms(3)])
  have n3: "dadd (dsub s e) d \<noteq> NaN" by (rule dadd_not_NaN' [OF n2 assms(2)])
  have e1: "representable (vs + vd) \<Longrightarrow> valof (dadd s d) = Some (vs + vd)"
    by (rule dadd_exact [OF assms(1) assms(2)])
  have e2: "representable (vs - ve) \<Longrightarrow> valof (dsub s e) = Some (vs - ve)"
    by (rule dsub_exact [OF assms(1) assms(3)])
  have e3: "representable (vs - ve) \<Longrightarrow> representable (vs - ve + vd) \<Longrightarrow>
            valof (dadd (dsub s e) d) = Some (vs - ve + vd)"
    by (rule dadd_exact [OF e2 assms(2)])
  show ?thesis
    using n1 n2 n3 e1 e2 e3
    by (simp add: new pause_end_time_def preceding_nongc_duration_def total_duration_def
        deq_refl)
qed

lemma representable_int_values: "representable 9" "representable 3" "representable 5"
proof -
  have "is_double (double_of_int 9)" "is_double (double_of_int 3)" "is_double (double_of_int 5)"
    by (simp_all add: double_of_int_values is_double_def)
  then show "representable 9" "representable 3" "representable 5"
    unfolding representable_def using valof_values by blast+
qed

theorem pause_interval_derived_values_witness:
  "valof (double_of_int 7) = Some 7
   \<and> valof (double_of_int 2) = Some 2
   \<and> valof (double_of_int 4) = Some 4
   \<and> ge_zero (double_of_int 7) \<and> ge_zero (double_of_int 2) \<and> ge_zero (double_of_int 4)
   \<and> representable (7 + 2) \<and> representable (7 - 4) \<and> representable (7 - 4 + 2)
   \<and> (\<exists>p. GcPauseTimeInfo_new (double_of_int 7) (double_of_int 2) (double_of_int 4) = Inr p
          \<and> valof (pause_end_time p) = Some 9
          \<and> valof (preceding_nongc_duration p) = Some 3
          \<and> valof (total_duration p) = Some 5)"
proof -
  have g: "ge_zero (double_of_int 7)" "ge_zero (double_of_int 2)" "ge_zero (double_of_int 4)"
    by (simp_all add: double_of_int_values ge_zero_def)
  show ?thesis
    using g representable_int_values
      pause_interval_derived_values
        [OF valof_values(7) valof_values(3) valof_values(5) g]
    by (auto simp: valof_values)
qed

text \<open>
  Claim C8. When any of the three constructor arguments is negative, the constructor
  reaches a failing assertion: the result is an assertion failure and no object.
\<close>

theorem pause_interval_negative_argument_fails:
  assumes "lt_zero s \<or> lt_zero d \<or> lt_zero e"
  shows "\<exists>msg. GcPauseTimeInfo_new s d e = Inl (AssertionFailure msg)"
proof -
  have "lt_zero x \<Longrightarrow> \<not> ge_zero x" for x
    by (cases x) (simp_all add: lt_zero_def ge_zero_def)
  then show ?thesis
    using assms by (auto simp: GcPauseTimeInfo_new_def vm_assert_def)
qed

theorem pause_interval_negative_argument_fails_witness:
  "(lt_zero (double_of_int (- 1)) \<or> lt_zero (double_of_int 0) \<or> lt_zero (double_of_int 0))
   \<and> GcPauseTimeInfo_new (double_of_int (- 1)) (double_of_int 0) (double_of_int 0)
       = Inl (AssertionFailure ''pause_start_time must not be negative'')
   \<and> GcPauseTimeInfo_new (double_of_int 0) (double_of_int (- 1)) (double_of_int 0)
       = Inl (AssertionFailure ''pause_duration must not be negative'')
   \<and> GcPauseTimeInfo_new (double_of_int 0) (double_of_int 0) (double_of_int (- 1))
       = Inl (AssertionFailure ''end_of_last_pause must not be negative'')"
  using pause_interval_negative_argument_fails
    [of "double_of_int (- 1)" "double_of_int 0" "double_of_int 0"]
  by (simp add: GcPauseTimeInfo_new_def vm_assert_def double_of_int_values lt_zero_def
      ge_zero_def)

text \<open>
  Claim C9. Each setter accepts every value, negative ones included, with no check:
  it returns the value, the matching getter then returns it, and the other two fields
  keep their values. As a consequence \<open>preceding_nongc_duration\<close> can become negative
  on an object that was constructed with valid arguments.
\<close>

theorem setters_store_without_validation:
  "fst (set_start_time v p) = v
   \<and> start_time (snd (set_start_time v p)) = v
   \<and> duration (snd (set_start_time v p)) = duration p
   \<and> end_of_last_pause (snd (set_start_time v p)) = end_of_last_pause p
   \<and> fst (set_duration v p) = v
   \<and> duration (snd (set_duration v p)) = v
   \<and> start_time (snd (set_duration v p)) = start_time p
   \<and> end_of_last_pause (snd (set_duration v p)) = end_of_last_pause p
   \<and> fst (set_end_of_last_pause v p) = v
   \<and> end_of_last_pause (snd (set_end_of_last_pause v p)) = v
   \<and> start_time (snd (set_end_of_last_pause v p)) = start_time p
   \<and> duration (snd (set_end_of_last_pause v p)) = duration p
   \<and> (\<exists>q. GcPauseTimeInfo_new (double_of_int 5) (double_of_int 1) (double_of_int 2) = Inr q
          \<and> preceding_nongc_duration q = double_of_int 3
          \<and> preceding_nongc_duration (snd (set_end_of_last_pause (double_of_int 8) q))
              = double_of_int (- 3)
          \<and> preceding_nongc_duration (snd (set_start_time (double_of_int (- 1)) q))
              = double_of_int (- 3)
          \<and> lt_zero (double_of_int (- 3)))"
proof -
  have a: "dsub (Finite False 5629499534213120 (- 50)) (Finite False 4503599627370496 (- 51))
           = Finite False 6755399441055744 (- 51)"
    "dsub (Finite False 5629499534213120 (- 50)) (Finite False 4503599627370496 (- 49))
           = Finite True 6755399441055744 (- 51)"
    "dsub (Finite True 4503599627370496 (- 52)) (Finite False 4503599627370496 (- 51))
           = Finite True 6755399441055744 (- 51)"
    by code_simp+
  show ?thesis
    by (simp add: set_start_time_def set_duration_def set_end_of_last_pause_def
        start_time_def duration_def end_of_last_pause_def
        GcPauseTimeInfo_new_def vm_assert_def preceding_nongc_duration_def
        double_of_int_values a ge_zero_def lt_zero_def)
qed


section \<open>Properties of the Inflater\<close>

subsection \<open>Buffers and positions\<close>

lemma buffer_ok_defaultBuf: "buffer_ok defaultBuf"
  by (simp add: buffer_ok_def defaultBuf_def)

lemma set_position_ok:
  "set_position n b = Some b' \<Longrightarrow> buffer_ok b \<Longrightarrow> buffer_ok b'"
  by (auto simp: set_position_def buffer_ok_def split: if_splits)

lemma set_position_Some_iff:
  "set_position n b = Some b' \<longleftrightarrow> (\<not> limit b <s n \<and> \<not> n <s 0 \<and> b' = b\<lparr> position := n \<rparr>)"
  by (auto simp: set_position_def)

lemma buffer_ok_moved:
  "buffer_ok b \<Longrightarrow> \<not> limit b <s n \<Longrightarrow> \<not> n <s 0 \<Longrightarrow> buffer_ok (b\<lparr> position := n \<rparr>)"
  by (simp add: buffer_ok_def signed.not_less)

lemma buffer_at_ok: "\<forall>r. buffer_ok (heap s r) \<Longrightarrow> buffer_ok (buffer_at s r)"
  by (cases r) (simp_all add: buffer_at_def buffer_ok_defaultBuf)

lemma buffer_at_upd [simp]:
  "buffer_at (s\<lparr> inputConsumed := ic \<rparr>) r = buffer_at s r"
  "buffer_at (s\<lparr> outputConsumed := oc \<rparr>) r = buffer_at s r"
  "buffer_at (s\<lparr> inputPos := p \<rparr>) r = buffer_at s r"
  "buffer_at (s\<lparr> finished := f \<rparr>) r = buffer_at s r"
  "buffer_at (s\<lparr> pendingOutput := f \<rparr>) r = buffer_at s r"
  "buffer_at (s\<lparr> needDict := f \<rparr>) r = buffer_at s r"
  "buffer_at (s\<lparr> bytesRead := n \<rparr>) r = buffer_at s r"
  "buffer_at (s\<lparr> bytesWritten := n \<rparr>) r = buffer_at s r"
  by (cases r; simp add: buffer_at_def)+

lemma buffer_at_heap: "heap s' = heap s \<Longrightarrow> buffer_at s' r = buffer_at s r"
  by (cases r) (simp_all add: buffer_at_def)

lemma buffer_at_other:
  "r \<noteq> UserBuf ro \<Longrightarrow> heap s' = (heap s)(ro := b) \<Longrightarrow> buffer_at s' r = buffer_at s r"
  by (cases r) (simp_all add: buffer_at_def)

lemma put_buffer_fields [simp]:
  "zsRef_address (put_buffer r b s) = zsRef_address s"
  "input (put_buffer r b s) = input s"
  "inputArray (put_buffer r b s) = inputArray s"
  "inputPos (put_buffer r b s) = inputPos s"
  "inputLim (put_buffer r b s) = inputLim s"
  "finished (put_buffer r b s) = finished s"
  "pendingOutput (put_buffer r b s) = pendingOutput s"
  "needDict (put_buffer r b s) = needDict s"
  "bytesRead (put_buffer r b s) = bytesRead s"
  "bytesWritten (put_buffer r b s) = bytesWritten s"
  "inputConsumed (put_buffer r b s) = inputConsumed s"
  "outputConsumed (put_buffer r b s) = outputConsumed s"
  by (cases r; simp add: put_buffer_def)+

lemma heap_put_buffer_ok:
  "\<forall>x. buffer_ok (heap s x) \<Longrightarrow> buffer_ok b \<Longrightarrow> buffer_ok (heap (put_buffer r b s) x)"
  by (cases r) (simp_all add: put_buffer_def)

lemma heap_put_other:
  "r \<noteq> UserBuf ro \<Longrightarrow> heap (put_buffer r b s) ro = heap s ro"
  by (cases r) (simp_all add: put_buffer_def)

lemma remaining_defaultBuf: "remaining defaultBuf = 0"
  by (simp add: remaining_def defaultBuf_def)

lemma sint_sub_nowrap:
  fixes p l :: jint
  assumes "0 \<le>s p" "p \<le>s l"
  shows "sint (l - p) = sint l - sint p"
proof -
  have a: "0 \<le> sint p" "sint p \<le> sint l" using assms by (simp_all add: word_sle_eq)
  have b: "sint l < 2 ^ 31" using sint_lt [of l] by simp
  have "signed_take_bit 31 (sint l - sint p) = sint l - sint p"
    by (rule signed_take_bit_int_eq_self) (use a b in simp_all)
  then show ?thesis by (simp add: sint_word_ariths)
qed

lemma sub_pos_iff:
  fixes p l :: jint
  assumes "0 \<le>s p" "p \<le>s l"
  shows "0 <s l - p \<longleftrightarrow> p <s l"
  by (simp add: word_sless_alt sint_sub_nowrap [OF assms])

lemma buffer_remaining_zero_iff:
  assumes "buffer_ok b"
  shows "remaining b = 0 \<longleftrightarrow> \<not> hasRemaining b"
proof -
  have "0 <s limit b - position b \<longleftrightarrow> position b <s limit b"
    using assms by (simp add: buffer_ok_def sub_pos_iff)
  moreover have "0 <s limit b - position b \<Longrightarrow> limit b - position b \<noteq> 0"
    by (auto simp: word_sless_alt)
  ultimately show ?thesis
    by (auto simp: remaining_def hasRemaining_def Let_def)
qed

lemma sint_remaining:
  assumes "buffer_ok b"
  shows "sint (remaining b) = sint (limit b) - sint (position b)"
proof -
  have ok: "0 \<le>s position b" "position b \<le>s limit b"
    using assms by (simp_all add: buffer_ok_def)
  have d: "sint (limit b - position b) = sint (limit b) - sint (position b)"
    by (rule sint_sub_nowrap [OF ok])
  have "0 \<le> sint (limit b) - sint (position b)"
    using ok(2) by (simp add: word_sle_eq)
  then show ?thesis
    using d by (auto simp: remaining_def Let_def word_sless_alt)
qed

lemma move_in_range:
  assumes "buffer_ok b" and "count_in_range n (remaining b)"
  shows "set_position (position b + n) b = Some (b\<lparr> position := position b + n \<rparr>)"
proof -
  have p: "0 \<le> sint (position b)" "sint (position b) \<le> sint (limit b)"
    using assms(1) by (simp_all add: buffer_ok_def word_sle_eq)
  have n: "0 \<le> sint n" "sint n \<le> sint (limit b) - sint (position b)"
    using assms(2) sint_remaining [OF assms(1)] by (simp_all add: count_in_range_def word_sle_eq)
  have l: "sint (limit b) < 2 ^ 31" using sint_lt [of "limit b"] by simp
  have "signed_take_bit 31 (sint (position b) + sint n) = sint (position b) + sint n"
    by (rule signed_take_bit_int_eq_self) (use p n l in simp_all)
  then have "sint (position b + n) = sint (position b) + sint n"
    by (simp add: sint_word_ariths)
  then show ?thesis
    using p n by (simp add: set_position_def word_sless_alt)
qed

lemma count_in_range_zero: "count_in_range n 0 \<Longrightarrow> n = 0"
proof -
  assume "count_in_range n 0"
  then have "sint n = 0" by (simp add: count_in_range_def word_sle_eq)
  then show "n = 0" by (simp add: signed_eq_0_iff)
qed

lemma moved_input_position:
  assumes "count_in_range n (remaining (buffer_at s r))"
  shows "position (buffer_at (put_buffer r (buffer_at s r\<lparr> position := position (buffer_at s r) + n \<rparr>) s) r)
         = position (buffer_at s r) + n"
proof (cases r)
  case DefaultBuf
  then have "n = 0"
    using assms by (simp add: buffer_at_def remaining_defaultBuf count_in_range_zero)
  then show ?thesis using DefaultBuf by (simp add: buffer_at_def put_buffer_def)
next
  case (UserBuf k)
  then show ?thesis by (simp add: buffer_at_def put_buffer_def)
qed

lemma sint_length:
  assumes "n < 2 ^ 31"
  shows "sint (word_of_nat n :: jint) = int n"
proof -
  have "signed_take_bit 31 (int n) = int n"
    by (rule signed_take_bit_int_eq_self) (use assms in simp_all)
  then show ?thesis by (simp add: signed_of_nat)
qed

lemma whole_array_in_bounds:
  "length a < 2 ^ 31 \<Longrightarrow> checkFromIndexSize 0 (word_of_nat (length a)) (length a)"
  by (simp add: checkFromIndexSize_def sint_length)

subsection \<open>Every operation keeps the invariant\<close>

lemma inv_buffer_at: "session_inv s \<Longrightarrow> buffer_ok (buffer_at s r)"
  by (simp add: session_inv_def buffer_at_ok)

lemma inv_heap_upd:
  "session_inv s \<Longrightarrow> buffer_ok b \<Longrightarrow> session_inv (s\<lparr> heap := (heap s)(r := b) \<rparr>)"
  by (simp add: session_inv_def one_input_active_def)

lemma inv_put_buffer: "session_inv s \<Longrightarrow> buffer_ok b \<Longrightarrow> session_inv (put_buffer r b s)"
  by (cases r) (auto simp: session_inv_def put_buffer_def one_input_active_def)

lemma inv_moved:
  "session_inv s \<Longrightarrow> \<not> limit (buffer_at s r) <s n \<Longrightarrow> \<not> n <s 0 \<Longrightarrow>
   session_inv (put_buffer r (buffer_at s r\<lparr> position := n \<rparr>) s)"
  by (simp add: inv_put_buffer buffer_ok_moved inv_buffer_at)

lemma inv_native_fields:
  "session_inv s \<Longrightarrow> session_inv (s\<lparr> inputConsumed := ic, outputConsumed := oc \<rparr>)"
  by (simp add: session_inv_def one_input_active_def)

lemma inv_new:
  "Inflater_new cdc nowrap h = Inr s \<Longrightarrow> \<forall>r. buffer_ok (h r) \<Longrightarrow> session_inv s"
  by (auto simp: Inflater_new_def Let_def session_inv_def one_input_active_def split: if_splits)

lemma inv_setInput: "session_inv s \<Longrightarrow> session_inv (snd (setInput a off len s))"
  by (auto simp: session_inv_def setInput_def one_input_active_def Let_def split: option.splits)

lemma inv_setInput_array: "session_inv s \<Longrightarrow> session_inv (snd (setInput_array a s))"
  by (cases a) (simp_all add: setInput_array_def inv_setInput)

lemma inv_setInput_buffer: "session_inv s \<Longrightarrow> session_inv (snd (setInput_buffer a s))"
  by (auto simp: session_inv_def setInput_buffer_def one_input_active_def Let_def
      split: option.splits)

lemma inv_setDictionary: "session_inv s \<Longrightarrow> session_inv (snd (setDictionary a off len s))"
  by (auto simp: session_inv_def setDictionary_def one_input_active_def Let_def
      split: option.splits sum.splits)

lemma inv_setDictionary_array: "session_inv s \<Longrightarrow> session_inv (snd (setDictionary_array a s))"
  by (cases a) (simp_all add: setDictionary_array_def inv_setDictionary)

lemma inv_setDictionary_buffer: "session_inv s \<Longrightarrow> session_inv (snd (setDictionary_buffer a s))"
  by (simp add: session_inv_def setDictionary_buffer_def one_input_active_def Let_def
      set_position_Some_iff buffer_ok_moved split: option.split sum.split)

lemma inv_reset: "session_inv s \<Longrightarrow> session_inv (snd (reset s))"
  by (auto simp: session_inv_def reset_def one_input_active_def Let_def split: sum.splits)

lemma inv_end: "session_inv s \<Longrightarrow> session_inv (snd (end_inflater s))"
  by (auto simp: session_inv_def end_inflater_def clean_def run_def one_input_active_def Let_def)

lemma inv_inflate_catch: "session_inv s \<Longrightarrow> session_inv (inflate_catch s)"
  by (simp add: session_inv_def inflate_catch_def one_input_active_def Let_def)

lemma inv_inflate_tail:
  "session_inv s \<Longrightarrow> session_inv (snd (inflate_tail inp ip len res s))"
  by (simp add: inflate_tail_def Let_def set_position_Some_iff session_inv_def
      one_input_active_def buffer_ok_moved heap_put_buffer_ok buffer_at_ok
      split: option.split sum.split)

lemma inv_inflate:
  assumes "session_inv s"
  shows "session_inv (snd (inflate cdc a off len s))"
proof (cases a)
  case None
  then show ?thesis using assms by (simp add: inflate_def)
next
  case (Some out)
  show ?thesis
  proof (cases "input s")
    case None
    have "session_inv (inflate_catch (s\<lparr> inputConsumed := ic, outputConsumed := oc,
                                          inputPos := p \<rparr>))" for ic oc p
      using assms by (simp add: session_inv_def one_input_active_def inflate_catch_def Let_def)
    then show ?thesis using assms None \<open>a = Some out\<close>
      by (simp add: inflate_def Let_def ensureOpen_def inv_inflate_tail
          split: native_result.split)
  next
    case (Some r)
    have a: "session_inv (s\<lparr> inputConsumed := ic, outputConsumed := oc \<rparr>)" for ic oc
      using assms by (rule inv_native_fields)
    have c: "\<not> limit (buffer_at s r) <s n \<Longrightarrow> \<not> n <s 0 \<Longrightarrow>
      session_inv (inflate_catch (put_buffer r (buffer_at s r\<lparr> position := n \<rparr>)
          (s\<lparr> inputConsumed := ic, outputConsumed := oc \<rparr>)))" for n ic oc
      using inv_moved [OF a, where r = r and n = n] by (simp add: inv_inflate_catch)
    show ?thesis using assms Some \<open>a = Some out\<close>
      by (simp add: inflate_def Let_def ensureOpen_def inv_inflate_tail a c
          set_position_Some_iff
          split: native_result.split option.split)
  qed
qed

lemma inv_inflate_buffer_catch:
  "session_inv s \<Longrightarrow> session_inv (snd (inflate_buffer_catch ro op s))"
  by (simp add: inflate_buffer_catch_def Let_def set_position_Some_iff session_inv_def
      one_input_active_def buffer_ok_moved split: option.split)

lemma inv_inflate_buffer_tail:
  "session_inv s \<Longrightarrow> session_inv (snd (inflate_buffer_tail inp ip ro op res s))"
  by (simp add: inflate_buffer_tail_def Let_def set_position_Some_iff session_inv_def
      one_input_active_def buffer_ok_moved heap_put_buffer_ok buffer_at_ok
      split: option.split sum.split)

lemma inv_inflate_buffer:
  assumes "session_inv s"
  shows "session_inv (snd (inflate_buffer cdc a s))"
proof (cases a)
  case None
  then show ?thesis using assms by (simp add: inflate_buffer_def)
next
  case (Some ro)
  show ?thesis
  proof (cases "input s")
    case None
    have "session_inv (s\<lparr> inputConsumed := ic, outputConsumed := oc, inputPos := p \<rparr>)"
      for ic oc p
      using assms by (simp add: session_inv_def one_input_active_def)
    then show ?thesis using assms None \<open>a = Some ro\<close>
      by (simp add: inflate_buffer_def Let_def ensureOpen_def inv_inflate_buffer_tail
          inv_inflate_buffer_catch split: native_result.split)
  next
    case (Some r)
    have a: "session_inv (s\<lparr> inputConsumed := ic, outputConsumed := oc \<rparr>)" for ic oc
      using assms by (rule inv_native_fields)
    have c: "\<not> limit (buffer_at s r) <s n \<Longrightarrow> \<not> n <s 0 \<Longrightarrow>
      session_inv (put_buffer r (buffer_at s r\<lparr> position := n \<rparr>)
          (s\<lparr> inputConsumed := ic, outputConsumed := oc \<rparr>))" for n ic oc
      using inv_moved [OF a, where r = r and n = n] by simp
    show ?thesis using assms Some \<open>a = Some ro\<close>
      by (simp add: inflate_buffer_def Let_def ensureOpen_def inv_inflate_buffer_tail
          inv_inflate_buffer_catch a c set_position_Some_iff
          split: native_result.split option.split)
  qed
qed

lemma reachable_inv: "reachable s \<Longrightarrow> session_inv s"
proof (induction rule: reachable.induct)
  case (r_new cdc nowrap h s)
  then show ?case by (rule inv_new)
next
  case (r_inflate_array s cdc a)
  then show ?case by (cases a) (simp_all add: inflate_array_def inv_inflate)
next
  case (r_close s)
  then show ?case by (simp add: close_def inv_end)
qed (simp_all add: inv_heap_upd inv_setInput inv_setInput_array inv_setInput_buffer
      inv_setDictionary inv_setDictionary_array inv_setDictionary_buffer inv_inflate
      inv_inflate_buffer inv_reset inv_end)

subsection \<open>The concrete sessions\<close>

lemma example_session_new:
  "Inflater_new (example_codec r) nowrap example_heap = Inr example_session"
  by (simp add: Inflater_new_def example_codec_def example_session_def)

lemma example_heap_ok: "buffer_ok (example_heap r)"
  by (simp add: example_heap_def example_buffer_def buffer_ok_def word_sle_eq)

lemma example_session_reachable: "reachable example_session"
  using example_session_new [of "Returned 0" False] example_heap_ok
  by (blast intro: reachable.r_new)

lemma fed_session_eq:
  "fed_session = example_session\<lparr> input := None, inputArray := Some [1, 2, 3, 4, 5],
                                   inputPos := 0, inputLim := 5 \<rparr>"
  by (simp add: fed_session_def setInput_def checkFromIndexSize_def Let_def)

lemma fed_session_reachable: "reachable fed_session"
  unfolding fed_session_def by (rule reachable.r_setInput) (rule example_session_reachable)

lemma buffer_session_eq:
  "buffer_session = example_session\<lparr> input := Some (UserBuf 0), inputArray := None \<rparr>"
  by (simp add: buffer_session_def setInput_buffer_def Let_def)

lemma buffer_session_reachable: "reachable buffer_session"
  unfolding buffer_session_def
  by (rule reachable.r_setInput_buffer) (rule example_session_reachable)

lemma inflate_fills_output:
  "inflate (example_codec (Returned 0x80000002)) (Some [0]) 0 1 fed_session
   = (Inr 1, fed_session\<lparr> pendingOutput := True, inputPos := 2, bytesWritten := 1,
                              bytesRead := 2 \<rparr>)"
  by (simp add: fed_session_eq example_session_def example_codec_def inflate_def
      inflate_native_def inflate_tail_def ensureOpen_def checkFromIndexSize_def Let_def)

lemma end_closes: "zsRef_address (snd (end_inflater s)) = 0"
  by (simp add: end_inflater_def clean_def run_def Let_def)

subsection \<open>Input sources\<close>

text \<open>
  Claim C5. In every reachable state exactly one of the two input representations is
  set. A successful \<open>setInput\<close> with an array sets the array and clears the buffer; a
  successful \<open>setInput\<close> with a buffer sets the buffer and clears the array. No
  \<open>setInput\<close>, successful or not, changes \<open>finished\<close>, \<open>needDict\<close>,
  \<open>pendingOutput\<close>, \<open>bytesRead\<close> or \<open>bytesWritten\<close>.
\<close>

theorem one_input_source_last_set_wins:
  "(reachable s \<longrightarrow> one_input_active s)
   \<and> (checkFromIndexSize off len (length a) \<longrightarrow>
        fst (setInput (Some a) off len s) = Inr ()
        \<and> input (snd (setInput (Some a) off len s)) = None
        \<and> inputArray (snd (setInput (Some a) off len s)) = Some a
        \<and> inputPos (snd (setInput (Some a) off len s)) = off
        \<and> inputLim (snd (setInput (Some a) off len s)) = off + len)
   \<and> (length a < 2 ^ 31 \<longrightarrow>
        fst (setInput_array (Some a) s) = Inr ()
        \<and> input (snd (setInput_array (Some a) s)) = None
        \<and> inputArray (snd (setInput_array (Some a) s)) = Some a)
   \<and> fst (setInput_buffer (Some r) s) = Inr ()
   \<and> input (snd (setInput_buffer (Some r) s)) = Some (UserBuf r)
   \<and> inputArray (snd (setInput_buffer (Some r) s)) = None
   \<and> finished (snd (setInput inp off len s)) = finished s
   \<and> needDict (snd (setInput inp off len s)) = needDict s
   \<and> pendingOutput (snd (setInput inp off len s)) = pendingOutput s
   \<and> bytesRead (snd (setInput inp off len s)) = bytesRead s
   \<and> bytesWritten (snd (setInput inp off len s)) = bytesWritten s
   \<and> finished (snd (setInput_array inp s)) = finished s
   \<and> needDict (snd (setInput_array inp s)) = needDict s
   \<and> pendingOutput (snd (setInput_array inp s)) = pendingOutput s
   \<and> bytesRead (snd (setInput_array inp s)) = bytesRead s
   \<and> bytesWritten (snd (setInput_array inp s)) = bytesWritten s
   \<and> finished (snd (setInput_buffer rb s)) = finished s
   \<and> needDict (snd (setInput_buffer rb s)) = needDict s
   \<and> pendingOutput (snd (setInput_buffer rb s)) = pendingOutput s
   \<and> bytesRead (snd (setInput_buffer rb s)) = bytesRead s
   \<and> bytesWritten (snd (setInput_buffer rb s)) = bytesWritten s"
proof -
  have inv: "reachable s \<longrightarrow> one_input_active s"
    using reachable_inv [of s] by (simp add: session_inv_def)
  show ?thesis
    using inv
    by (simp add: setInput_def setInput_array_def setInput_buffer_def Let_def
        whole_array_in_bounds split: option.split)
qed

theorem one_input_source_last_set_wins_witness:
  "reachable (snd (setInput (Some [1, 2, 3]) 0 3 example_session))
   \<and> one_input_active (snd (setInput (Some [1, 2, 3]) 0 3 example_session))
   \<and> checkFromIndexSize 0 3 (length [1 :: jbyte, 2, 3])
   \<and> length [1 :: jbyte, 2, 3] < 2 ^ 31
   \<and> input (snd (setInput (Some [1, 2, 3]) 0 3 example_session)) = None
   \<and> inputArray (snd (setInput (Some [1, 2, 3]) 0 3 example_session)) = Some [1, 2, 3]
   \<and> input (snd (setInput_buffer (Some 7)
               (snd (setInput (Some [1, 2, 3]) 0 3 example_session)))) = Some (UserBuf 7)
   \<and> inputArray (snd (setInput_buffer (Some 7)
               (snd (setInput (Some [1, 2, 3]) 0 3 example_session)))) = None"
proof -
  have r: "reachable (snd (setInput (Some [1, 2, 3]) 0 3 example_session))"
    by (rule reachable.r_setInput) (rule example_session_reachable)
  have c: "checkFromIndexSize 0 3 (length [1 :: jbyte, 2, 3])"
    by (simp add: checkFromIndexSize_def)
  show ?thesis
    using r c
      one_input_source_last_set_wins
        [of "snd (setInput (Some [1, 2, 3]) 0 3 example_session)" 0 3 "[1, 2, 3]" 7]
      one_input_source_last_set_wins [of example_session 0 3 "[1, 2, 3]" 7]
    by simp
qed

text \<open>
  Claim C6. In every reachable state \<open>needsInput\<close> is true exactly when
  \<open>getRemaining\<close> is 0, for array input and for buffer input alike, and in the state
  that the constructor returns \<open>needsInput\<close> is true.
\<close>

theorem needsInput_iff_nothing_remaining:
  "(reachable s \<longrightarrow> (needsInput s \<longleftrightarrow> getRemaining s = 0))
   \<and> (Inflater_new cdc nowrap h = Inr s0 \<longrightarrow> needsInput s0)"
proof (intro conjI impI)
  assume "reachable s"
  then have inv: "session_inv s" by (rule reachable_inv)
  show "needsInput s \<longleftrightarrow> getRemaining s = 0"
  proof (cases "input s")
    case None
    then show ?thesis by (auto simp: needsInput_def getRemaining_def)
  next
    case (Some r)
    then show ?thesis
      using buffer_remaining_zero_iff [OF inv_buffer_at [OF inv, of r]]
      by (simp add: needsInput_def getRemaining_def)
  qed
next
  assume "Inflater_new cdc nowrap h = Inr s0"
  then show "needsInput s0"
    by (auto simp: Inflater_new_def Let_def needsInput_def buffer_at_def hasRemaining_def
        defaultBuf_def split: if_splits)
qed

theorem needsInput_iff_nothing_remaining_witness:
  "reachable (snd (setInput (Some [1, 2, 3]) 0 3 example_session))
   \<and> \<not> needsInput (snd (setInput (Some [1, 2, 3]) 0 3 example_session))
   \<and> getRemaining (snd (setInput (Some [1, 2, 3]) 0 3 example_session)) = 3
   \<and> reachable example_session
   \<and> needsInput example_session
   \<and> getRemaining example_session = 0
   \<and> Inflater_new (example_codec (Returned 0)) False example_heap = Inr example_session"
proof -
  have r: "reachable (snd (setInput (Some [1, 2, 3]) 0 3 example_session))"
    by (rule reachable.r_setInput) (rule example_session_reachable)
  have g: "getRemaining (snd (setInput (Some [1, 2, 3]) 0 3 example_session)) = 3"
    by (simp add: getRemaining_def setInput_def checkFromIndexSize_def Let_def)
  show ?thesis
    using r g example_session_reachable
      needsInput_iff_nothing_remaining
        [of "snd (setInput (Some [1, 2, 3]) 0 3 example_session)"
            "example_codec (Returned 0)" False example_heap example_session]
      needsInput_iff_nothing_remaining
        [of example_session "example_codec (Returned 0)" False example_heap example_session]
      example_session_new [of "Returned 0" False]
    by simp
qed

subsection \<open>Reset and teardown\<close>

text \<open>
  Claim C4. On an open session \<open>reset\<close> returns normally and leaves both counters at
  0 (as \<open>getBytesRead\<close> and \<open>getBytesWritten\<close> then report), \<open>finished\<close> and
  \<open>needDict\<close> false, and the input source replaced by the empty default buffer, so
  that \<open>needsInput\<close> is true. On a closed session it throws
  \<^verbatim>\<open>IllegalStateException\<close> and the state is the one before the call.
\<close>

theorem reset_clears_session:
  "(zsRef_address s \<noteq> 0 \<longrightarrow>
      fst (reset s) = Inr ()
      \<and> getBytesRead (snd (reset s)) = Inr 0
      \<and> getBytesWritten (snd (reset s)) = Inr 0
      \<and> \<not> finished' (snd (reset s))
      \<and> \<not> needsDictionary (snd (reset s))
      \<and> input (snd (reset s)) = Some DefaultBuf
      \<and> inputArray (snd (reset s)) = None
      \<and> getRemaining (snd (reset s)) = 0
      \<and> needsInput (snd (reset s)))
   \<and> (zsRef_address s = 0 \<longrightarrow> reset s = (Inl IllegalStateException, s))"
  by (simp add: reset_def ensureOpen_def Let_def getBytesRead_def getBytesWritten_def
      finished'_def needsDictionary_def needsInput_def getRemaining_def buffer_at_def
      hasRemaining_def remaining_def defaultBuf_def)

theorem reset_clears_session_witness:
  "zsRef_address (example_session\<lparr> finished := True, bytesRead := 5, bytesWritten := 9 \<rparr>) \<noteq> 0
   \<and> getBytesRead (example_session\<lparr> finished := True, bytesRead := 5, bytesWritten := 9 \<rparr>)
       = Inr 5
   \<and> getBytesRead (snd (reset
         (example_session\<lparr> finished := True, bytesRead := 5, bytesWritten := 9 \<rparr>))) = Inr 0
   \<and> getBytesWritten (snd (reset
         (example_session\<lparr> finished := True, bytesRead := 5, bytesWritten := 9 \<rparr>))) = Inr 0
   \<and> needsInput (snd (reset
         (example_session\<lparr> finished := True, bytesRead := 5, bytesWritten := 9 \<rparr>)))
   \<and> zsRef_address (snd (end_inflater example_session)) = 0
   \<and> reset (snd (end_inflater example_session))
       = (Inl IllegalStateException, snd (end_inflater example_session))"
  using
    reset_clears_session
      [of "example_session\<lparr> finished := True, bytesRead := 5, bytesWritten := 9 \<rparr>"]
    reset_clears_session [of "snd (end_inflater example_session)"]
  by (simp add: example_session_def end_closes getBytesRead_def ensureOpen_def)

text \<open>
  Claim C10. On an open session \<open>reset\<close> leaves \<open>pendingOutput\<close> as it was:
  \<open>hasPendingOutput\<close> returns the same value after it as before, while
  \<open>finished\<close>, \<open>needDict\<close>, both counters and the input source are cleared.
\<close>

theorem reset_keeps_pendingOutput:
  "zsRef_address s \<noteq> 0 \<Longrightarrow>
     fst (reset s) = Inr ()
     \<and> hasPendingOutput (snd (reset s)) = hasPendingOutput s
     \<and> finished (snd (reset s)) = False
     \<and> needDict (snd (reset s)) = False
     \<and> bytesRead (snd (reset s)) = 0
     \<and> bytesWritten (snd (reset s)) = 0
     \<and> input (snd (reset s)) = Some DefaultBuf
     \<and> inputArray (snd (reset s)) = None"
  by (simp add: reset_def ensureOpen_def Let_def hasPendingOutput_def)

theorem reset_keeps_pendingOutput_witness:
  "zsRef_address (snd (inflate (example_codec (Returned 0x80000002)) (Some [0]) 0 1
                         fed_session)) \<noteq> 0
   \<and> hasPendingOutput (snd (inflate (example_codec (Returned 0x80000002)) (Some [0]) 0 1
                               fed_session))
   \<and> bytesRead (snd (inflate (example_codec (Returned 0x80000002)) (Some [0]) 0 1
                       fed_session)) = 2
   \<and> hasPendingOutput
        (snd (reset (snd (inflate (example_codec (Returned 0x80000002)) (Some [0]) 0 1
                            fed_session))))
   \<and> bytesRead
        (snd (reset (snd (inflate (example_codec (Returned 0x80000002)) (Some [0]) 0 1
                            fed_session)))) = 0"
  using reset_keeps_pendingOutput
    [of "snd (inflate (example_codec (Returned 0x80000002)) (Some [0]) 0 1 fed_session)"]
  by (simp add: inflate_fills_output hasPendingOutput_def)
    (simp add: fed_session_eq example_session_def reset_def ensureOpen_def Let_def)

text \<open>
  Claim C2, as stated, at a concrete input: the claim lists \<open>setInput\<close> among the
  operations that fail on a closed session, but after \<open>end\<close> both \<open>setInput\<close> with an
  array and \<open>setInput\<close> with a buffer return normally, and the array is installed
  as the input.
\<close>

theorem setInput_succeeds_after_end:
  "zsRef_address (snd (end_inflater example_session)) = 0
   \<and> setInput (Some [1, 2, 3]) 0 3 (snd (end_inflater example_session))
       = (Inr (), snd (end_inflater example_session)
                    \<lparr> input := None, inputArray := Some [1, 2, 3], inputPos := 0,
                      inputLim := 3 \<rparr>)
   \<and> fst (setInput_buffer (Some 1) (snd (end_inflater example_session))) = Inr ()"
  by (simp add: end_closes setInput_def setInput_buffer_def checkFromIndexSize_def Let_def)

text \<open>
  Claim C2, amended. A second \<open>end\<close> or \<open>close\<close> returns normally and changes
  nothing. After \<open>end\<close>, the operations \<open>setDictionary\<close>, \<open>inflate\<close>, \<open>getAdler\<close>,
  \<open>getBytesRead\<close>, \<open>getBytesWritten\<close>, \<open>getTotalIn\<close>, \<open>getTotalOut\<close> and \<open>reset\<close>,
  given arguments that pass the argument checks they make before the open check
  (array bounds, a writable output buffer), throw \<^verbatim>\<open>IllegalStateException\<close> and
  leave the state as it was. \<open>setInput\<close> makes no open check: on a closed session it
  returns normally and installs the input.
\<close>

theorem closed_session_operations:
  assumes "c = snd (end_inflater s0)"
  shows "end_inflater c = (Inr (), c)
   \<and> close c = (Inr (), c)
   \<and> (checkFromIndexSize off len (length d) \<longrightarrow>
        setDictionary (Some d) off len c = (Inl IllegalStateException, c))
   \<and> (length d < 2 ^ 31 \<longrightarrow>
        setDictionary_array (Some d) c = (Inl IllegalStateException, c))
   \<and> setDictionary_buffer (Some r) c = (Inl IllegalStateException, c)
   \<and> (checkFromIndexSize off len (length d) \<longrightarrow>
        inflate cdc (Some d) off len c = (Inl IllegalStateException, c))
   \<and> (length d < 2 ^ 31 \<longrightarrow>
        inflate_array cdc (Some d) c = (Inl IllegalStateException, c))
   \<and> (\<not> isReadOnly (heap c r) \<longrightarrow>
        inflate_buffer cdc (Some r) c = (Inl IllegalStateException, c))
   \<and> getAdler cdc c = Inl IllegalStateException
   \<and> getBytesRead c = Inl IllegalStateException
   \<and> getBytesWritten c = Inl IllegalStateException
   \<and> getTotalIn c = Inl IllegalStateException
   \<and> getTotalOut c = Inl IllegalStateException
   \<and> reset c = (Inl IllegalStateException, c)
   \<and> (checkFromIndexSize off len (length d) \<longrightarrow>
        fst (setInput (Some d) off len c) = Inr ()
        \<and> inputArray (snd (setInput (Some d) off len c)) = Some d)
   \<and> fst (setInput_buffer (Some r) c) = Inr ()
   \<and> input (snd (setInput_buffer (Some r) c)) = Some (UserBuf r)"
proof -
  have z: "zsRef_address c = 0" using assms by (simp add: end_closes)
  show ?thesis
    by (simp add: z end_inflater_def close_def setDictionary_def setDictionary_array_def
        setDictionary_buffer_def inflate_def inflate_array_def inflate_buffer_def
        getAdler_def getBytesRead_def getBytesWritten_def getTotalIn_def getTotalOut_def
        reset_def setInput_def setInput_buffer_def ensureOpen_def Let_def
        whole_array_in_bounds)
qed

theorem closed_session_operations_witness:
  "snd (end_inflater example_session) = snd (end_inflater example_session)
   \<and> checkFromIndexSize 0 3 (length [1 :: jbyte, 2, 3])
   \<and> length [1 :: jbyte, 2, 3] < 2 ^ 31
   \<and> \<not> isReadOnly (heap (snd (end_inflater example_session)) 1)
   \<and> end_inflater (snd (end_inflater example_session))
       = (Inr (), snd (end_inflater example_session))
   \<and> inflate (example_codec (Returned 0)) (Some [1, 2, 3]) 0 3
        (snd (end_inflater example_session))
       = (Inl IllegalStateException, snd (end_inflater example_session))
   \<and> inflate_buffer (example_codec (Returned 0)) (Some 1)
        (snd (end_inflater example_session))
       = (Inl IllegalStateException, snd (end_inflater example_session))
   \<and> setDictionary (Some [1, 2, 3]) 0 3 (snd (end_inflater example_session))
       = (Inl IllegalStateException, snd (end_inflater example_session))
   \<and> getBytesRead (snd (end_inflater example_session)) = Inl IllegalStateException
   \<and> reset (snd (end_inflater example_session))
       = (Inl IllegalStateException, snd (end_inflater example_session))
   \<and> fst (setInput (Some [1, 2, 3]) 0 3 (snd (end_inflater example_session))) = Inr ()"
proof -
  have c: "checkFromIndexSize 0 3 (length [1 :: jbyte, 2, 3])"
    by (simp add: checkFromIndexSize_def)
  have w: "\<not> isReadOnly (heap (snd (end_inflater example_session)) 1)"
    by (simp add: end_inflater_def clean_def run_def Let_def example_session_def
        example_heap_def example_buffer_def)
  show ?thesis
    using c w
      closed_session_operations
        [of "snd (end_inflater example_session)" example_session 0 3 "[1, 2, 3]" 1
            "example_codec (Returned 0)"]
    by simp
qed

subsection \<open>The pending-output flag\<close>

lemma inflate_sets_pendingOutput:
  assumes "inflate cdc out off len s = (Inr written, s')"
  shows "pendingOutput s' = (written = len \<and> \<not> finished s')"
proof -
  obtain o' where o: "out = Some o'" using assms by (cases out) (simp_all add: inflate_def)
  have t: "inflate_tail inp ip len res s = (Inr written, s') \<Longrightarrow>
           pendingOutput s' = (written = len \<and> \<not> finished s')" for inp ip res
    by (auto simp: inflate_tail_def Let_def set_position_Some_iff
        split: option.splits sum.splits if_splits)
  show ?thesis using assms o
    by (auto simp: inflate_def Let_def ensureOpen_def t
        split: option.splits sum.splits if_splits native_result.splits)
qed

text \<open>
  Claim C3. The claim says that after every successful decompression, into an array or
  into a buffer, \<open>pendingOutput\<close> is true exactly when the call wrote the whole
  requested length and the stream is not finished. Decompression into an array does
  that (\<open>inflate_sets_pendingOutput\<close>). Decompression into a buffer never assigns the
  flag. Evaluated here: a call that fills all 4 remaining bytes of the output buffer of
  an unfinished stream leaves the flag false; and after a call of the array variant
  has set the flag, a call of the buffer variant that writes 0 of 4 requested bytes
  leaves it true.
\<close>

theorem inflate_buffer_leaves_pendingOutput:
  "remaining (heap fed_session 1) = 4
   \<and> fst (inflate_buffer (example_codec (Returned 0x200000002)) (Some 1) fed_session) = Inr 4
   \<and> \<not> finished (snd (inflate_buffer (example_codec (Returned 0x200000002)) (Some 1)
                         fed_session))
   \<and> \<not> hasPendingOutput (snd (inflate_buffer (example_codec (Returned 0x200000002)) (Some 1)
                                 fed_session))
   \<and> fst (inflate (example_codec (Returned 0x80000002)) (Some [0]) 0 1 fed_session) = Inr 1
   \<and> hasPendingOutput (snd (inflate (example_codec (Returned 0x80000002)) (Some [0]) 0 1
                               fed_session))
   \<and> fst (inflate_buffer (example_codec (Returned 0)) (Some 1)
            (snd (inflate (example_codec (Returned 0x80000002)) (Some [0]) 0 1 fed_session)))
       = Inr 0
   \<and> hasPendingOutput
        (snd (inflate_buffer (example_codec (Returned 0)) (Some 1)
               (snd (inflate (example_codec (Returned 0x80000002)) (Some [0]) 0 1
                      fed_session))))"
  by (simp add: inflate_fills_output hasPendingOutput_def)
    (simp add: fed_session_eq example_session_def example_heap_def example_buffer_def
      example_codec_def inflate_buffer_def inflate_buffer_native_def inflate_buffer_tail_def
      ensureOpen_def Let_def set_position_def remaining_def Math_max_def
      word_sle_eq word_sless_alt)

subsection \<open>Progress committed before a data-format error\<close>

lemma inflate_catch_fields:
  "heap (inflate_catch s) = heap s"
  "zsRef_address (inflate_catch s) = zsRef_address s"
  "input (inflate_catch s) = input s"
  "inputPos (inflate_catch s) = inputPos s"
  "bytesRead (inflate_catch s) = bytesRead s + scast (inputConsumed s)"
  "bytesWritten (inflate_catch s) = bytesWritten s + scast (outputConsumed s)"
  by (simp_all add: inflate_catch_def Let_def)

lemma inflate_commits:
  assumes inv: "session_inv s" and op: "zsRef_address s \<noteq> 0"
    and rng: "input s = None \<or> count_in_range ic (getRemaining s)"
    and chk: "checkFromIndexSize off len (length out)"
    and nat: "inflate_native cdc out off len s = ThrewDataFormat ic oc"
  shows "\<exists>s'. inflate cdc (Some out) off len s = (Inl DataFormatException, s')
           \<and> active_input_position s' = active_input_position s + ic
           \<and> getBytesRead s' = Inr (bytesRead s + scast ic)
           \<and> getBytesWritten s' = Inr (bytesWritten s + scast oc)"
proof (cases "input s")
  case None
  then show ?thesis using op chk nat
    by (simp add: inflate_def Let_def ensureOpen_def inflate_catch_fields
        active_input_position_def getBytesRead_def getBytesWritten_def)
next
  case (Some r)
  let ?b = "buffer_at s r"
  let ?s1 = "s\<lparr> inputConsumed := ic, outputConsumed := oc \<rparr>"
  let ?b' = "?b\<lparr> position := position ?b + ic \<rparr>"
  have rng': "count_in_range ic (remaining ?b)"
    using rng Some by (simp add: getRemaining_def)
  have mv: "set_position (position ?b + ic) ?b = Some ?b'"
    by (rule move_in_range [OF inv_buffer_at [OF inv] rng'])
  have run: "inflate cdc (Some out) off len s
             = (Inl DataFormatException, inflate_catch (put_buffer r ?b' ?s1))"
    using Some op chk nat mv by (simp add: inflate_def Let_def ensureOpen_def)
  have pos: "position (buffer_at (inflate_catch (put_buffer r ?b' ?s1)) r) = position ?b + ic"
    using moved_input_position [of ic ?s1 r] rng'
    by (simp add: buffer_at_heap [OF inflate_catch_fields(1)])
  show ?thesis
    using Some op pos
    by (simp add: run inflate_catch_fields active_input_position_def getBytesRead_def
        getBytesWritten_def ensureOpen_def)
qed

lemma inflate_buffer_catch_run:
  assumes "set_position (op + outputConsumed s) (heap s ro) = Some b"
  shows "inflate_buffer_catch ro op s
         = (Inl DataFormatException,
            s\<lparr> bytesRead := bytesRead s + scast (inputConsumed s),
               inputConsumed := 0,
               heap := (heap s)(ro := b),
               bytesWritten := bytesWritten s + scast (outputConsumed s),
               outputConsumed := 0 \<rparr>)"
  using assms by (simp add: inflate_buffer_catch_def Let_def)

lemma inflate_buffer_commits:
  assumes inv: "session_inv s" and op: "zsRef_address s \<noteq> 0"
    and rng: "input s = None \<or> count_in_range ic (getRemaining s)"
    and wr: "\<not> isReadOnly (heap s ro)"
    and dist: "input s \<noteq> Some (UserBuf ro)"
    and nat: "inflate_buffer_native cdc ro s = ThrewDataFormat ic oc"
    and orng: "count_in_range oc (remaining (heap s ro))"
  shows "\<exists>s'. inflate_buffer cdc (Some ro) s = (Inl DataFormatException, s')
           \<and> active_input_position s' = active_input_position s + ic
           \<and> position (heap s' ro) = position (heap s ro) + oc
           \<and> getBytesRead s' = Inr (bytesRead s + scast ic)
           \<and> getBytesWritten s' = Inr (bytesWritten s + scast oc)"
proof -
  let ?o = "heap s ro"
  let ?o' = "?o\<lparr> position := position ?o + oc \<rparr>"
  have omv: "set_position (position ?o + oc) ?o = Some ?o'"
    by (rule move_in_range [OF _ orng]) (use inv in \<open>simp add: session_inv_def\<close>)
  show ?thesis
  proof (cases "input s")
    case None
    let ?s2 = "s\<lparr> inputConsumed := ic, outputConsumed := oc, inputPos := inputPos s + ic \<rparr>"
    have c: "inflate_buffer_catch ro (position ?o) ?s2
             = (Inl DataFormatException,
                ?s2\<lparr> bytesRead := bytesRead ?s2 + scast (inputConsumed ?s2),
                   inputConsumed := 0,
                   heap := (heap ?s2)(ro := ?o'),
                   bytesWritten := bytesWritten ?s2 + scast (outputConsumed ?s2),
                   outputConsumed := 0 \<rparr>)"
      by (rule inflate_buffer_catch_run) (use omv in simp)
    show ?thesis using None op wr nat
      by (simp add: inflate_buffer_def Let_def ensureOpen_def c
          active_input_position_def getBytesRead_def getBytesWritten_def)
  next
    case (Some r)
    let ?b = "buffer_at s r"
    let ?s1 = "s\<lparr> inputConsumed := ic, outputConsumed := oc \<rparr>"
    let ?b' = "?b\<lparr> position := position ?b + ic \<rparr>"
    let ?s2 = "put_buffer r ?b' ?s1"
    have ne: "r \<noteq> UserBuf ro" using dist Some by simp
    have rng': "count_in_range ic (remaining ?b)"
      using rng Some by (simp add: getRemaining_def)
    have mv: "set_position (position ?b + ic) ?b = Some ?b'"
      by (rule move_in_range [OF inv_buffer_at [OF inv] rng'])
    have h2: "heap ?s2 ro = ?o"
      using heap_put_other [OF ne, of ?b' ?s1] by simp
    let ?s3 = "?s2\<lparr> bytesRead := bytesRead ?s2 + scast (inputConsumed ?s2),
                   inputConsumed := 0,
                   heap := (heap ?s2)(ro := ?o'),
                   bytesWritten := bytesWritten ?s2 + scast (outputConsumed ?s2),
                   outputConsumed := 0 \<rparr>"
    have oc2: "outputConsumed ?s2 = oc" by simp
    have c: "inflate_buffer_catch ro (position ?o) ?s2 = (Inl DataFormatException, ?s3)"
      by (rule inflate_buffer_catch_run) (simp only: oc2 h2 omv)
    have run: "inflate_buffer cdc (Some ro) s = (Inl DataFormatException, ?s3)"
      using Some op wr nat mv by (simp add: inflate_buffer_def Let_def ensureOpen_def c)
    have pos2: "position (buffer_at ?s2 r) = position ?b + ic"
      using moved_input_position [of ic ?s1 r] rng' by simp
    have same: "buffer_at ?s3 r = buffer_at ?s2 r"
      by (rule buffer_at_other [OF ne]) simp
    have f: "zsRef_address ?s3 = zsRef_address s" "input ?s3 = input s"
      "bytesRead ?s3 = bytesRead s + scast ic" "bytesWritten ?s3 = bytesWritten s + scast oc"
      "position (heap ?s3 ro) = position ?o + oc"
      by simp_all
    have ap: "active_input_position ?s3 = active_input_position s + ic"
      unfolding active_input_position_def f(2) Some
      by (simp only: option.case same pos2)
    have br: "getBytesRead ?s3 = Inr (bytesRead s + scast ic)"
      unfolding getBytesRead_def ensureOpen_def f using op by simp
    have bw: "getBytesWritten ?s3 = Inr (bytesWritten s + scast oc)"
      unfolding getBytesWritten_def ensureOpen_def f using op by simp
    show ?thesis
      using run ap f(5) br bw by blast
  qed
qed

text \<open>
  Claim C1, as stated, at a concrete input. The claim speaks of every call. Take the
  session whose input is the buffer with reference 0 and call \<open>inflate\<close> with that
  same buffer as the output. The native codec throws after consuming 3 bytes and
  producing 1, counts within the 4 bytes that remain. The inner handler moves the
  position of the buffer to 3, then the outer handler moves the position of the output,
  the same object, to 1: the input position has advanced by 1, not by the 3 bytes
  consumed, while \<open>getBytesRead\<close> reports 3.
\<close>

theorem inflate_buffer_same_buffer_counterexample:
  "reachable buffer_session
   \<and> zsRef_address buffer_session \<noteq> 0
   \<and> input buffer_session = Some (UserBuf 0)
   \<and> \<not> isReadOnly (heap buffer_session 0)
   \<and> inflate_buffer_native (example_codec (ThrewDataFormat 3 1)) 0 buffer_session
       = ThrewDataFormat 3 1
   \<and> count_in_range 3 (getRemaining buffer_session)
   \<and> count_in_range 1 (remaining (heap buffer_session 0))
   \<and> active_input_position buffer_session = 0
   \<and> fst (inflate_buffer (example_codec (ThrewDataFormat 3 1)) (Some 0) buffer_session)
       = Inl DataFormatException
   \<and> active_input_position
        (snd (inflate_buffer (example_codec (ThrewDataFormat 3 1)) (Some 0) buffer_session))
       = 1
   \<and> getBytesRead
        (snd (inflate_buffer (example_codec (ThrewDataFormat 3 1)) (Some 0) buffer_session))
       = Inr 3"
proof -
  have run: "inflate_buffer (example_codec (ThrewDataFormat 3 1)) (Some 0) buffer_session
             = (Inl DataFormatException,
                buffer_session\<lparr> heap := (heap buffer_session)(0 := example_buffer\<lparr> position := 1 \<rparr>),
                                bytesRead := 3, bytesWritten := 1 \<rparr>)"
    by (simp add: buffer_session_eq example_session_def example_heap_def example_buffer_def
        example_codec_def inflate_buffer_def inflate_buffer_native_def inflate_buffer_catch_def
        ensureOpen_def buffer_at_def put_buffer_def set_position_def Math_max_def Let_def
        word_sle_eq word_sless_alt)
  show ?thesis
    unfolding run
    by (simp add: buffer_session_reachable)
      (simp add: buffer_session_eq example_session_def example_heap_def example_buffer_def
        example_codec_def inflate_buffer_native_def count_in_range_def getRemaining_def
        remaining_def buffer_at_def Math_max_def Let_def word_sle_eq word_sless_alt
        active_input_position_def getBytesRead_def ensureOpen_def)
qed

text \<open>
  Claim C1, amended. On an open session, take a call of \<open>inflate\<close>, into an array (with
  or without offset and length) or into a buffer that is not the buffer the session
  reads its input from, in which the native codec throws
  \<^verbatim>\<open>DataFormatException\<close> after consuming \<open>ic\<close> bytes and producing \<open>oc\<close> bytes.
  The call throws \<^verbatim>\<open>DataFormatException\<close>, and in the state it leaves behind the
  position of the active input source has advanced by \<open>ic\<close>, \<open>getBytesRead\<close> reports
  \<open>ic\<close> more and \<open>getBytesWritten\<close> reports \<open>oc\<close> more; the position of an output
  buffer has advanced by \<open>oc\<close>. The state is any reachable one and the arguments pass
  the checks made before the native call. Where a count becomes the position of a
  buffer it is a count that a codec can report, no more than what remained of that
  buffer: \<^verbatim>\<open>position(n)\<close> refuses anything beyond the limit. For array input the
  count consumed is not restricted.
\<close>

theorem inflate_commits_progress_before_error:
  assumes "reachable s" and "zsRef_address s \<noteq> 0"
    and "input s = None \<or> count_in_range ic (getRemaining s)"
  shows "(checkFromIndexSize off len (length out)
          \<and> inflate_native cdc out off len s = ThrewDataFormat ic oc
          \<longrightarrow> (\<exists>s'. inflate cdc (Some out) off len s = (Inl DataFormatException, s')
                 \<and> active_input_position s' = active_input_position s + ic
                 \<and> getBytesRead s' = Inr (bytesRead s + scast ic)
                 \<and> getBytesWritten s' = Inr (bytesWritten s + scast oc)))
       \<and> (length out < 2 ^ 31
          \<and> inflate_native cdc out 0 (word_of_nat (length out)) s = ThrewDataFormat ic oc
          \<longrightarrow> (\<exists>s'. inflate_array cdc (Some out) s = (Inl DataFormatException, s')
                 \<and> active_input_position s' = active_input_position s + ic
                 \<and> getBytesRead s' = Inr (bytesRead s + scast ic)
                 \<and> getBytesWritten s' = Inr (bytesWritten s + scast oc)))
       \<and> (\<not> isReadOnly (heap s ro)
          \<and> input s \<noteq> Some (UserBuf ro)
          \<and> inflate_buffer_native cdc ro s = ThrewDataFormat ic oc
          \<and> count_in_range oc (remaining (heap s ro))
          \<longrightarrow> (\<exists>s'. inflate_buffer cdc (Some ro) s = (Inl DataFormatException, s')
                 \<and> active_input_position s' = active_input_position s + ic
                 \<and> position (heap s' ro) = position (heap s ro) + oc
                 \<and> getBytesRead s' = Inr (bytesRead s + scast ic)
                 \<and> getBytesWritten s' = Inr (bytesWritten s + scast oc)))"
proof -
  have inv: "session_inv s" using assms(1) by (rule reachable_inv)
  have arr: "inflate_array cdc (Some out) s = inflate cdc (Some out) 0 (word_of_nat (length out)) s"
    by (simp add: inflate_array_def)
  show ?thesis
    unfolding arr
    using inflate_commits [OF inv assms(2) assms(3)]
      inflate_buffer_commits [OF inv assms(2) assms(3)]
      whole_array_in_bounds [of out]
    by blast
qed

theorem inflate_commits_progress_before_error_witness:
  "reachable fed_session
   \<and> zsRef_address fed_session \<noteq> 0
   \<and> (input fed_session = None \<or> count_in_range 2 (getRemaining fed_session))
   \<and> checkFromIndexSize 0 3 (length [0 :: jbyte, 0, 0])
   \<and> inflate_native (example_codec (ThrewDataFormat 2 1)) [0, 0, 0] 0 3 fed_session
       = ThrewDataFormat 2 1
   \<and> (\<exists>s'. inflate (example_codec (ThrewDataFormat 2 1)) (Some [0, 0, 0]) 0 3 fed_session
              = (Inl DataFormatException, s')
            \<and> active_input_position s' = 2
            \<and> getBytesRead s' = Inr 2
            \<and> getBytesWritten s' = Inr 1)
   \<and> length [0 :: jbyte, 0, 0] < 2 ^ 31
   \<and> inflate_native (example_codec (ThrewDataFormat 2 1)) [0, 0, 0] 0
        (word_of_nat (length [0 :: jbyte, 0, 0])) fed_session
       = ThrewDataFormat 2 1
   \<and> (\<exists>s'. inflate_array (example_codec (ThrewDataFormat 2 1)) (Some [0, 0, 0]) fed_session
              = (Inl DataFormatException, s')
            \<and> active_input_position s' = 2
            \<and> getBytesRead s' = Inr 2
            \<and> getBytesWritten s' = Inr 1)
   \<and> reachable buffer_session
   \<and> zsRef_address buffer_session \<noteq> 0
   \<and> (input buffer_session = None \<or> count_in_range 2 (getRemaining buffer_session))
   \<and> input buffer_session = Some (UserBuf 0)
   \<and> \<not> isReadOnly (heap buffer_session 3)
   \<and> input buffer_session \<noteq> Some (UserBuf 3)
   \<and> inflate_buffer_native (example_codec (ThrewDataFormat 2 1)) 3 buffer_session
       = ThrewDataFormat 2 1
   \<and> count_in_range 1 (remaining (heap buffer_session 3))
   \<and> (\<exists>s'. inflate_buffer (example_codec (ThrewDataFormat 2 1)) (Some 3) buffer_session
              = (Inl DataFormatException, s')
            \<and> active_input_position s' = 2
            \<and> position (heap s' 3) = 1
            \<and> getBytesRead s' = Inr 2
            \<and> getBytesWritten s' = Inr 1)"
proof -
  have a1: "zsRef_address fed_session \<noteq> 0"
    and a2: "input fed_session = None \<or> count_in_range 2 (getRemaining fed_session)"
    and a3: "checkFromIndexSize 0 3 (length [0 :: jbyte, 0, 0])"
    and a4: "inflate_native (example_codec (ThrewDataFormat 2 1)) [0, 0, 0] 0 3 fed_session
             = ThrewDataFormat 2 1"
    and a5: "active_input_position fed_session = 0" "bytesRead fed_session = 0"
      "bytesWritten fed_session = 0"
    and a6: "length [0 :: jbyte, 0, 0] < 2 ^ 31"
    and a7: "inflate_native (example_codec (ThrewDataFormat 2 1)) [0, 0, 0] 0
               (word_of_nat (length [0 :: jbyte, 0, 0])) fed_session
             = ThrewDataFormat 2 1"
    by (simp_all add: fed_session_eq example_session_def count_in_range_def getRemaining_def
        checkFromIndexSize_def inflate_native_def example_codec_def word_sle_eq
        active_input_position_def)
  have b1: "zsRef_address buffer_session \<noteq> 0"
    and b2: "input buffer_session = None \<or> count_in_range 2 (getRemaining buffer_session)"
    and b0: "input buffer_session = Some (UserBuf 0)"
    and b3: "\<not> isReadOnly (heap buffer_session 3)"
    and b4: "input buffer_session \<noteq> Some (UserBuf 3)"
    and b5: "inflate_buffer_native (example_codec (ThrewDataFormat 2 1)) 3 buffer_session
             = ThrewDataFormat 2 1"
    and b6: "count_in_range 1 (remaining (heap buffer_session 3))"
    and b7: "active_input_position buffer_session = 0" "bytesRead buffer_session = 0"
      "bytesWritten buffer_session = 0" "position (heap buffer_session 3) = 0"
    by (simp_all add: buffer_session_eq example_session_def example_heap_def
        example_buffer_def count_in_range_def getRemaining_def remaining_def buffer_at_def
        inflate_buffer_native_def example_codec_def Math_max_def Let_def word_sle_eq
        word_sless_alt active_input_position_def)
  have A: "(\<exists>s'. inflate (example_codec (ThrewDataFormat 2 1)) (Some [0, 0, 0]) 0 3 fed_session
              = (Inl DataFormatException, s')
            \<and> active_input_position s' = 2
            \<and> getBytesRead s' = Inr 2
            \<and> getBytesWritten s' = Inr 1)
         \<and> (\<exists>s'. inflate_array (example_codec (ThrewDataFormat 2 1)) (Some [0, 0, 0]) fed_session
              = (Inl DataFormatException, s')
            \<and> active_input_position s' = 2
            \<and> getBytesRead s' = Inr 2
            \<and> getBytesWritten s' = Inr 1)"
    using a3 a4 a6 a7
      inflate_commits_progress_before_error
        [OF fed_session_reachable a1 a2,
          where off = 0 and len = 3 and out = "[0, 0, 0]"
            and cdc = "example_codec (ThrewDataFormat 2 1)" and oc = 1 and ro = 3]
    by (simp add: a5)
  have B: "\<exists>s'. inflate_buffer (example_codec (ThrewDataFormat 2 1)) (Some 3) buffer_session
              = (Inl DataFormatException, s')
            \<and> active_input_position s' = 2
            \<and> position (heap s' 3) = 1
            \<and> getBytesRead s' = Inr 2
            \<and> getBytesWritten s' = Inr 1"
    using b3 b4 b5 b6
      inflate_commits_progress_before_error
        [OF buffer_session_reachable b1 b2,
          where off = 0 and len = 3 and out = "[0, 0, 0]"
            and cdc = "example_codec (ThrewDataFormat 2 1)" and oc = 1 and ro = 3]
    by (simp add: b7)
  show ?thesis
    using fed_session_reachable a1 a2 a3 a4 a6 a7 A buffer_session_reachable b0 b1 b2 b3 b4
      b5 b6 B
    by simp
qed

end
